theory Spec2Isabelle
  imports Main "HOL-Library.Word"
begin

unbundle bit_operations_syntax

section \<open>Data model of elf_packer.py\<close>

text \<open>
  The file image is a Python \<open>bytearray\<close>: a list of bytes. Python integers are
  unbounded; every integer the packer handles is a size, an offset or an unsigned field
  decoded from the image, so they are natural numbers here.
\<close>

type_synonym byte = "8 word"

text \<open>The exceptions the packer can raise, as values.\<close>

datatype error =
    IndexError
  | KeyError
  | AttributeError
  | TypeError
  | ValueError
  | NameError
  | StructError
  | AssemblyError
  | SystemExit

text \<open>The enumeration \<open>SectionType(Enum)\<close> of the source, with its values.\<close>

datatype SectionType =
    SHT_NULL
  | SHT_PROGBITS
  | SHT_SYMTAB
  | SHT_STRTAB
  | SHT_RELA
  | SHT_HASH
  | SHT_DYNAMIC
  | SHT_NOTE
  | SHT_NOBITS
  | SHT_REL
  | SHT_SHLIB
  | SHT_DYNSYM
  | SHT_LOPROC
  | SHT_HIPROC
  | SHT_LOUSER
  | SHT_HIUSER

fun SectionType_value :: "SectionType \<Rightarrow> nat" where
  "SectionType_value SHT_NULL = 0"
| "SectionType_value SHT_PROGBITS = 1"
| "SectionType_value SHT_SYMTAB = 2"
| "SectionType_value SHT_STRTAB = 3"
| "SectionType_value SHT_RELA = 4"
| "SectionType_value SHT_HASH = 5"
| "SectionType_value SHT_DYNAMIC = 6"
| "SectionType_value SHT_NOTE = 7"
| "SectionType_value SHT_NOBITS = 8"
| "SectionType_value SHT_REL = 9"
| "SectionType_value SHT_SHLIB = 10"
| "SectionType_value SHT_DYNSYM = 11"
| "SectionType_value SHT_LOPROC = 0x70000000"
| "SectionType_value SHT_HIPROC = 0x7fffffff"
| "SectionType_value SHT_LOUSER = 0x80000000"
| "SectionType_value SHT_HIUSER = 0xffffffff"

text \<open>
  The two kinds of Python object that \<open>find_cave\<close> compares with \<open>==\<close>: the integer
  \<open>sec.sh_type\<close> that \<open>unpack\<close> produced, and the member \<open>SectionType.SHT_NOBITS\<close>.
  \<open>SectionType\<close> derives from \<open>Enum\<close> (not \<open>IntEnum\<close>): a member is equal to itself only,
  and \<open>int.__eq__\<close> does not know it, so an integer and a member are never equal. That is
  the equality of this datatype.
\<close>

datatype pyobj = PyInt nat | PyEnum SectionType

definition py_eq :: "pyobj \<Rightarrow> pyobj \<Rightarrow> bool" where
  "py_eq a b = (a = b)"

text \<open>Class \<open>Section\<close>. The attribute \<open>name\<close> is set only by the second pass of
  \<open>parse_sections_header\<close>; before that it is absent.\<close>

record Section =
  sh_name :: nat
  sh_type :: nat
  sh_flags :: nat
  sh_addr :: nat
  sh_offset :: nat
  sh_size :: nat
  sh_link :: nat
  sh_info :: nat
  sh_addralign :: nat
  sh_entsize :: nat
  name :: "string option"

text \<open>The fourteen attributes that \<open>parse_header\<close> assigns in one tuple assignment.\<close>

record elf_header =
  e_ident :: "byte list"
  e_type :: nat
  e_machine :: nat
  e_version :: nat
  e_entry :: nat
  e_phoff :: nat
  e_shoff :: nat
  e_flags :: nat
  e_ehsize :: nat
  e_phentsize :: nat
  e_phnum :: nat
  e_shentsize :: nat
  e_shnum :: nat
  e_shstrndx :: nat

text \<open>
  Class \<open>Elf\<close>. The attributes beyond \<open>name\<close> and \<open>data\<close> do not exist until the parsing
  methods assign them (reading one before raises AttributeError), hence the options.
  \<open>sections\<close> is a Python dict from section type to a list of sections; a dict iterates
  in the order its keys were first inserted, so it is an association list here.
\<close>

record Elf =
  elf_name :: string
  data :: "byte list"
  header :: "elf_header option"
  sections :: "(nat \<times> Section list) list option"
  string_table_offset :: "nat option"

text \<open>The module-level variable that \<open>write_unpacker\<close> reads; it is bound only once the
  script part of the module has assigned it.\<close>

record globals =
  unpacker_off :: "nat option"

section \<open>Bytes, slices and fixed-width integers\<close>

definition EI_NIDENT :: nat where
  "EI_NIDENT = 16"

definition ELF32_EHDR_SZ :: nat where
  "ELF32_EHDR_SZ = 36 + EI_NIDENT"

definition ETYPE_DIC :: "nat \<rightharpoonup> string" where
  "ETYPE_DIC = map_of [(0, ''No file type''), (1, ''Relocatable file''),
     (2, ''Executable file''), (3, ''Shared object file''), (4, ''Core file'')]"

text \<open>\<open>xs[a:b]\<close> for indices that are not negative: both ends are clipped to the length.\<close>

definition py_slice :: "'a list \<Rightarrow> nat \<Rightarrow> nat \<Rightarrow> 'a list" where
  "py_slice xs a b = drop a (take b xs)"

text \<open>\<open>xs[a:b] = ys\<close> for \<open>a \<le> b\<close>: the clipped slice is replaced by all of \<open>ys\<close>, so the
  length changes when the slice is shorter than \<open>ys\<close>.\<close>

definition slice_assign :: "'a list \<Rightarrow> nat \<Rightarrow> nat \<Rightarrow> 'a list \<Rightarrow> 'a list" where
  "slice_assign xs a b ys = take a xs @ ys @ drop b xs"

text \<open>
  \<open>struct.unpack\<close> is called without a byte-order prefix: native order and alignment.
  The format strings used keep every field naturally aligned (no padding), and the
  packer targets and runs on x86, so fields are little-endian.
\<close>

fun le_nat :: "byte list \<Rightarrow> nat" where
  "le_nat [] = 0"
| "le_nat (b # bs) = unat b + 256 * le_nat bs"

fun le_bytes :: "nat \<Rightarrow> nat \<Rightarrow> byte list" where
  "le_bytes 0 v = []"
| "le_bytes (Suc n) v = word_of_nat (v mod 256) # le_bytes n (v div 256)"

text \<open>pwntools' \<open>p32\<close>: four little-endian bytes; \<open>struct.error\<close> for a value that does
  not fit 32 unsigned bits.\<close>

definition p32 :: "nat \<Rightarrow> error + byte list" where
  "p32 v = (if v < 2 ^ 32 then Inr (le_bytes 4 v) else Inl StructError)"

text \<open>\<open>chr\<close> on a byte value.\<close>

definition py_chr :: "byte \<Rightarrow> char" where
  "py_chr b = char_of (unat b)"

section \<open>Header Parser\<close>

definition unpack_header :: "byte list \<Rightarrow> error + elf_header" where
  "unpack_header bs =
     (if length bs \<noteq> 52 then Inl StructError
      else Inr \<lparr>e_ident = py_slice bs 0 16,
                e_type = le_nat (py_slice bs 16 18),
                e_machine = le_nat (py_slice bs 18 20),
                e_version = le_nat (py_slice bs 20 24),
                e_entry = le_nat (py_slice bs 24 28),
                e_phoff = le_nat (py_slice bs 28 32),
                e_shoff = le_nat (py_slice bs 32 36),
                e_flags = le_nat (py_slice bs 36 40),
                e_ehsize = le_nat (py_slice bs 40 42),
                e_phentsize = le_nat (py_slice bs 42 44),
                e_phnum = le_nat (py_slice bs 44 46),
                e_shentsize = le_nat (py_slice bs 46 48),
                e_shnum = le_nat (py_slice bs 48 50),
                e_shstrndx = le_nat (py_slice bs 50 52)\<rparr>)"

text \<open>The second debug line indexes \<open>ETYPE_DIC\<close> while building its message, so an
  object type outside the table raises KeyError.\<close>

definition parse_header :: "Elf \<Rightarrow> error + Elf" where
  "parse_header e =
     (case unpack_header (py_slice (data e) 0 ELF32_EHDR_SZ) of
        Inl err \<Rightarrow> Inl err
      | Inr h \<Rightarrow>
          (case ETYPE_DIC (e_type h) of
             None \<Rightarrow> Inl KeyError
           | Some _ \<Rightarrow> Inr (e\<lparr>header := Some h\<rparr>)))"

section \<open>String Table Resolver\<close>

function get_string_loop :: "byte list \<Rightarrow> nat \<Rightarrow> nat \<Rightarrow> string \<Rightarrow> error + string" where
  "get_string_loop d sto index elf_str =
     (if sto + index < length d then
        (let char = d ! (sto + index) in
         if char \<noteq> 0 then get_string_loop d sto (index + 1) (elf_str @ [py_chr char])
         else Inr elf_str)
      else Inl IndexError)"
  by pat_completeness auto
termination
  by (relation "measure (\<lambda>(d, sto, index, elf_str). length d - (sto + index))") auto

definition get_string :: "Elf \<Rightarrow> nat \<Rightarrow> error + string" where
  "get_string e index =
     (case string_table_offset e of
        None \<Rightarrow> Inl AttributeError
      | Some sto \<Rightarrow> get_string_loop (data e) sto index [])"

section \<open>Section Table Parser\<close>

definition unpack_section :: "byte list \<Rightarrow> error + Section" where
  "unpack_section bs =
     (if length bs \<noteq> 40 then Inl StructError
      else Inr \<lparr>sh_name = le_nat (py_slice bs 0 4),
                sh_type = le_nat (py_slice bs 4 8),
                sh_flags = le_nat (py_slice bs 8 12),
                sh_addr = le_nat (py_slice bs 12 16),
                sh_offset = le_nat (py_slice bs 16 20),
                sh_size = le_nat (py_slice bs 20 24),
                sh_link = le_nat (py_slice bs 24 28),
                sh_info = le_nat (py_slice bs 28 32),
                sh_addralign = le_nat (py_slice bs 32 36),
                sh_entsize = le_nat (py_slice bs 36 40),
                name = None\<rparr>)"

text \<open>
  \<open>if not self.sections.get(sh_type): self.sections[sh_type] = []\<close> followed by
  \<open>self.sections[sh_type].append(sec)\<close>: a new key goes to the end of the dict, a known
  key keeps its place and its list grows at the end.
\<close>

fun dict_append :: "(nat \<times> Section list) list \<Rightarrow> nat \<Rightarrow> Section \<Rightarrow> (nat \<times> Section list) list" where
  "dict_append [] ty sec = [(ty, [sec])]"
| "dict_append ((ty', secs) # rest) ty sec =
     (if ty' = ty then (ty', secs @ [sec]) # rest
      else (ty', secs) # dict_append rest ty sec)"

text \<open>The first loop, over \<open>range(1, e_shnum)\<close>; its state is the dict and the string
  table offset.\<close>

fun parse_entries ::
  "elf_header \<Rightarrow> byte list \<Rightarrow> nat list \<Rightarrow> (nat \<times> Section list) list \<times> nat option
     \<Rightarrow> error + ((nat \<times> Section list) list \<times> nat option)" where
  "parse_entries h section_table [] st = Inr st"
| "parse_entries h section_table (sec_index # rest) (secs, sto) =
     (case unpack_section
             (py_slice section_table (sec_index * e_shentsize h)
                (sec_index * e_shentsize h + e_shentsize h)) of
        Inl err \<Rightarrow> Inl err
      | Inr sec \<Rightarrow>
          parse_entries h section_table rest
            (dict_append secs (sh_type sec) sec,
             if sec_index = e_shstrndx h then Some (sh_offset sec) else sto))"

text \<open>The second loop: \<open>sec.name = self.get_string(sec.sh_name)\<close> for every section of
  every group.\<close>

fun name_secs :: "Elf \<Rightarrow> Section list \<Rightarrow> error + Section list" where
  "name_secs e [] = Inr []"
| "name_secs e (sec # rest) =
     (case get_string e (sh_name sec) of
        Inl err \<Rightarrow> Inl err
      | Inr s \<Rightarrow>
          (case name_secs e rest of
             Inl err \<Rightarrow> Inl err
           | Inr rest' \<Rightarrow> Inr (sec\<lparr>name := Some s\<rparr> # rest')))"

fun name_groups :: "Elf \<Rightarrow> (nat \<times> Section list) list \<Rightarrow> error + (nat \<times> Section list) list" where
  "name_groups e [] = Inr []"
| "name_groups e ((ty, secs) # rest) =
     (case name_secs e secs of
        Inl err \<Rightarrow> Inl err
      | Inr secs' \<Rightarrow>
          (case name_groups e rest of
             Inl err \<Rightarrow> Inl err
           | Inr rest' \<Rightarrow> Inr ((ty, secs') # rest')))"

definition parse_sections_header :: "Elf \<Rightarrow> error + Elf" where
  "parse_sections_header e =
     (case header e of
        None \<Rightarrow> Inl AttributeError
      | Some h \<Rightarrow>
          (let section_header_sz = e_shnum h * e_shentsize h;
               section_table = py_slice (data e) (e_shoff h) (e_shoff h + section_header_sz)
           in case parse_entries h section_table [1..<e_shnum h] ([], string_table_offset e) of
                Inl err \<Rightarrow> Inl err
              | Inr (secs, sto) \<Rightarrow>
                  (let e' = e\<lparr>sections := Some secs, string_table_offset := sto\<rparr>
                   in case name_groups e' secs of
                        Inl err \<Rightarrow> Inl err
                      | Inr secs' \<Rightarrow> Inr (e'\<lparr>sections := Some secs'\<rparr>))))"

section \<open>Section Lookup\<close>

fun get_section_secs :: "Section list \<Rightarrow> string \<Rightarrow> error + Section option" where
  "get_section_secs [] nm = Inr None"
| "get_section_secs (sec # rest) nm =
     (case name sec of
        None \<Rightarrow> Inl AttributeError
      | Some s \<Rightarrow> if s = nm then Inr (Some sec) else get_section_secs rest nm)"

fun get_section_groups :: "(nat \<times> Section list) list \<Rightarrow> string \<Rightarrow> error + Section option" where
  "get_section_groups [] nm = Inr None"
| "get_section_groups ((ty, secs) # rest) nm =
     (case get_section_secs secs nm of
        Inl err \<Rightarrow> Inl err
      | Inr (Some sec) \<Rightarrow> Inr (Some sec)
      | Inr None \<Rightarrow> get_section_groups rest nm)"

definition get_section :: "Elf \<Rightarrow> string \<Rightarrow> error + Section option" where
  "get_section e nm =
     (case sections e of
        None \<Rightarrow> Inl AttributeError
      | Some d \<Rightarrow> get_section_groups d nm)"

section \<open>Code Cave Finder\<close>

text \<open>The \<open>while\<close> loop over one section; it returns the final values of \<open>index\<close>,
  \<open>seen_nulls\<close> and \<open>checkpoint\<close>. Reading past the end of the buffer raises
  IndexError.\<close>

function scan_loop ::
  "byte list \<Rightarrow> Section \<Rightarrow> nat \<Rightarrow> nat \<Rightarrow> nat \<Rightarrow> nat \<Rightarrow> error + (nat \<times> nat \<times> nat)" where
  "scan_loop d sec required_size index seen_nulls checkpoint =
     (if index < sh_size sec then
        (if sh_offset sec + index < length d then
           (let char = d ! (sh_offset sec + index);
                index' = index + 1;
                seen_nulls' = (if char = 0 then seen_nulls + 1 else 0);
                checkpoint' = (if char = 0 then checkpoint else index')
            in if seen_nulls' = required_size then Inr (index', seen_nulls', checkpoint')
               else scan_loop d sec required_size index' seen_nulls' checkpoint')
         else Inl IndexError)
      else Inr (index, seen_nulls, checkpoint))"
  by pat_completeness auto
termination
  by (relation "measure (\<lambda>(d, sec, required_size, index, seen_nulls, checkpoint).
        sh_size sec - index)") auto

text \<open>The body of the inner \<open>for\<close> loop after the type test: \<open>None\<close> stands for
  \<open>continue\<close>, a pair for the \<open>return\<close>. The debug line before the \<open>return\<close> builds
  its message from \<open>sec.name\<close>, so a section whose name was never set raises
  AttributeError there.\<close>

definition scan_section :: "byte list \<Rightarrow> Section \<Rightarrow> nat \<Rightarrow> error + (nat \<times> nat) option" where
  "scan_section d sec required_size =
     (case scan_loop d sec required_size 0 0 0 of
        Inl err \<Rightarrow> Inl err
      | Inr (index, seen_nulls, checkpoint) \<Rightarrow>
          if seen_nulls < required_size then Inr None
          else
            (case name sec of
               None \<Rightarrow> Inl AttributeError
             | Some s \<Rightarrow> Inr (Some (sh_addr sec + checkpoint, sh_offset sec + checkpoint))))"

fun find_cave_secs :: "byte list \<Rightarrow> nat \<Rightarrow> Section list \<Rightarrow> error + (nat \<times> nat) option" where
  "find_cave_secs d required_size [] = Inr None"
| "find_cave_secs d required_size (sec # rest) =
     (if py_eq (PyInt (sh_type sec)) (PyEnum SHT_NOBITS) then find_cave_secs d required_size rest
      else
        (case scan_section d sec required_size of
           Inl err \<Rightarrow> Inl err
         | Inr (Some loc) \<Rightarrow> Inr (Some loc)
         | Inr None \<Rightarrow> find_cave_secs d required_size rest))"

fun find_cave_groups ::
  "byte list \<Rightarrow> nat \<Rightarrow> (nat \<times> Section list) list \<Rightarrow> error + (nat \<times> nat) option" where
  "find_cave_groups d required_size [] = Inr None"
| "find_cave_groups d required_size ((ty, secs) # rest) =
     (case find_cave_secs d required_size secs of
        Inl err \<Rightarrow> Inl err
      | Inr (Some loc) \<Rightarrow> Inr (Some loc)
      | Inr None \<Rightarrow> find_cave_groups d required_size rest)"

text \<open>After the loops the method logs an error and falls off its end: it returns
  \<open>None\<close>.\<close>

definition find_cave :: "Elf \<Rightarrow> nat \<Rightarrow> error + (nat \<times> nat) option" where
  "find_cave e required_size =
     (case sections e of
        None \<Rightarrow> Inl AttributeError
      | Some d \<Rightarrow> find_cave_groups (data e) required_size d)"

section \<open>Section Encoder, Entry Point Patcher, Stub Emitter and Stub Injector\<close>

text \<open>\<open>self.data[text_sec.sh_offset + i] ^= key\<close> for \<open>i\<close> in the range: the key is a
  Python integer, and a bytearray refuses a value outside \<open>range(256)\<close> with ValueError.\<close>

fun pack_loop :: "byte list \<Rightarrow> nat \<Rightarrow> int \<Rightarrow> nat list \<Rightarrow> error + byte list" where
  "pack_loop d off key [] = Inr d"
| "pack_loop d off key (i # rest) =
     (if off + i < length d then
        (let v = uint (d ! (off + i)) XOR key
         in if 0 \<le> v \<and> v < 256 then pack_loop (d[off + i := word_of_int v]) off key rest
            else Inl ValueError)
      else Inl IndexError)"

definition pack_code :: "Elf \<Rightarrow> int \<Rightarrow> error + Elf" where
  "pack_code e key =
     (case get_section e ''.text'' of
        Inl err \<Rightarrow> Inl err
      | Inr None \<Rightarrow> Inl AttributeError
      | Inr (Some text_sec) \<Rightarrow>
          (case pack_loop (data e) (sh_offset text_sec) key [0..<sh_size text_sec] of
             Inl err \<Rightarrow> Inl err
           | Inr d \<Rightarrow> Inr (e\<lparr>data := d\<rparr>)))"

definition change_ep :: "Elf \<Rightarrow> nat \<Rightarrow> error + Elf" where
  "change_ep e new_ep =
     (case p32 new_ep of
        Inl err \<Rightarrow> Inl err
      | Inr bs \<Rightarrow> Inr (e\<lparr>data := slice_assign (data e) 24 (24 + 4) bs\<rparr>))"

text \<open>
  The assembler (pwntools' \<open>asm\<close>) is an external collaborator. The text handed to it
  depends on four numbers only: the page address of the text section, its size, its
  address and the original entry point; so the assembler is a parameter, a function of
  these four, with \<open>None\<close> for an assembly error.
\<close>

type_synonym assembler = "nat \<Rightarrow> nat \<Rightarrow> nat \<Rightarrow> nat \<Rightarrow> byte list option"

definition create_unpacker :: "assembler \<Rightarrow> Elf \<Rightarrow> error + byte list" where
  "create_unpacker assemble e =
     (case get_section e ''.text'' of
        Inl err \<Rightarrow> Inl err
      | Inr None \<Rightarrow> Inl AttributeError
      | Inr (Some text_sec) \<Rightarrow>
          (let text_addr = sh_addr text_sec AND 0xFFFFF000
           in case header e of
                None \<Rightarrow> Inl AttributeError
              | Some h \<Rightarrow>
                  (case assemble text_addr (sh_size text_sec) (sh_addr text_sec) (e_entry h) of
                     None \<Rightarrow> Inl AssemblyError
                   | Some unpacker_asm \<Rightarrow> Inr unpacker_asm)))"

text \<open>
  \<open>def write_unpacker(self, asm, off): self.data[unpacker_off:unpacker_off+len(asm)] = asm\<close>.
  The body does not mention its parameter \<open>off\<close>: it reads the module-level variable
  \<open>unpacker_off\<close>, and raises NameError when that is not bound.
\<close>

definition write_unpacker :: "globals \<Rightarrow> Elf \<Rightarrow> byte list \<Rightarrow> nat \<Rightarrow> error + Elf" where
  "write_unpacker g e asm off =
     (case unpacker_off g of
        None \<Rightarrow> Inl NameError
      | Some uo \<Rightarrow> Inr (e\<lparr>data := slice_assign (data e) uo (uo + length asm) asm\<rparr>))"

section \<open>The script\<close>

text \<open>
  The script part of the module, from the bytes read from the input file on.
  \<open>script_head\<close> runs up to and including \<open>create_unpacker\<close> and gives the object and
  the stub; \<open>script\<close> is the whole. A result \<open>Inr\<close> of \<open>script\<close> means that the last
  statement was reached: \<open>written\<close> is the content of the \<open>.packed\<close> file, and the other
  fields are the script's variables at that point. A result \<open>Inl\<close> means that the script
  stopped before it opened the output file. \<open>find_cave\<close> returning \<open>None\<close> makes the
  tuple assignment raise TypeError. The call of \<open>write_unpacker\<close> finds the variable
  \<open>unpacker_off\<close> bound by that assignment.
\<close>

record script_state =
  binary :: Elf
  unpacker_asm :: "byte list"
  unpacker_addr :: nat
  unpacker_offset :: nat
  written :: "byte list"

definition script_head :: "assembler \<Rightarrow> string \<Rightarrow> byte list \<Rightarrow> error + (Elf \<times> byte list)" where
  "script_head assemble fname elf_data =
     (if py_slice elf_data 0 4 \<noteq> [0x7f, 0x45, 0x4c, 0x46] then Inl SystemExit
      else
        (case parse_header \<lparr>elf_name = fname, data = elf_data, header = None,
                 sections = None, string_table_offset = None\<rparr> of
           Inl err \<Rightarrow> Inl err
         | Inr b1 \<Rightarrow>
             (case parse_sections_header b1 of
                Inl err \<Rightarrow> Inl err
              | Inr b2 \<Rightarrow>
                  (case pack_code b2 0xa5 of
                     Inl err \<Rightarrow> Inl err
                   | Inr b3 \<Rightarrow>
                       (case create_unpacker assemble b3 of
                          Inl err \<Rightarrow> Inl err
                        | Inr stub \<Rightarrow> Inr (b3, stub))))))"

definition script :: "assembler \<Rightarrow> string \<Rightarrow> byte list \<Rightarrow> error + script_state" where
  "script assemble fname elf_data =
     (case script_head assemble fname elf_data of
        Inl err \<Rightarrow> Inl err
      | Inr (b3, stub) \<Rightarrow>
          (case find_cave b3 (length stub) of
             Inl err \<Rightarrow> Inl err
           | Inr None \<Rightarrow> Inl TypeError
           | Inr (Some (addr, off)) \<Rightarrow>
               (case change_ep b3 addr of
                  Inl err \<Rightarrow> Inl err
                | Inr b4 \<Rightarrow>
                    (case write_unpacker \<lparr>unpacker_off = Some off\<rparr> b4 stub off of
                       Inl err \<Rightarrow> Inl err
                     | Inr b5 \<Rightarrow>
                         Inr \<lparr>binary = b5, unpacker_asm = stub, unpacker_addr = addr,
                              unpacker_offset = off, written = data b5\<rparr>))))"

section \<open>Calling a method\<close>

text \<open>
  A call of one method of an \<open>Elf\<close> object, as a step on its state: the result is the
  value the method returns together with the object after the call. \<open>get_string\<close>,
  \<open>get_section\<close>, \<open>find_cave\<close> and \<open>create_unpacker\<close> contain no assignment to an
  attribute of \<open>self\<close>, so the object comes back as it was; the other methods return
  nothing and the object comes back as they left it.
\<close>

datatype call =
    ParseHeader
  | ParseSectionsHeader
  | GetString nat
  | GetSection string
  | FindCave nat
  | PackCode int
  | ChangeEp nat
  | CreateUnpacker
  | WriteUnpacker "byte list" nat

datatype retval =
    RNone
  | RString string
  | RSection "Section option"
  | RCave "(nat \<times> nat) option"
  | RBytes "byte list"

definition returning :: "('a \<Rightarrow> retval) \<Rightarrow> Elf \<Rightarrow> error + 'a \<Rightarrow> error + (retval \<times> Elf)" where
  "returning wrap e r = (case r of Inl err \<Rightarrow> Inl err | Inr v \<Rightarrow> Inr (wrap v, e))"

definition updating :: "error + Elf \<Rightarrow> error + (retval \<times> Elf)" where
  "updating r = (case r of Inl err \<Rightarrow> Inl err | Inr e' \<Rightarrow> Inr (RNone, e'))"

fun call_method :: "assembler \<Rightarrow> globals \<Rightarrow> Elf \<Rightarrow> call \<Rightarrow> error + (retval \<times> Elf)" where
  "call_method assemble g e ParseHeader = updating (parse_header e)"
| "call_method assemble g e ParseSectionsHeader = updating (parse_sections_header e)"
| "call_method assemble g e (GetString index) = returning RString e (get_string e index)"
| "call_method assemble g e (GetSection nm) = returning RSection e (get_section e nm)"
| "call_method assemble g e (FindCave required_size) =
     returning RCave e (find_cave e required_size)"
| "call_method assemble g e (PackCode key) = updating (pack_code e key)"
| "call_method assemble g e (ChangeEp new_ep) = updating (change_ep e new_ep)"
| "call_method assemble g e CreateUnpacker = returning RBytes e (create_unpacker assemble e)"
| "call_method assemble g e (WriteUnpacker asm off) = updating (write_unpacker g e asm off)"

text \<open>The methods that write to the buffer.\<close>

fun mutating :: "call \<Rightarrow> bool" where
  "mutating (PackCode key) = True"
| "mutating (ChangeEp new_ep) = True"
| "mutating (WriteUnpacker asm off) = True"
| "mutating c = False"

section \<open>Specification predicates and example images\<close>

text \<open>A four-byte buffer with a two-byte \<open>.text\<close> section at offset 1.\<close>

definition c2_text :: Section where
  "c2_text = \<lparr>sh_name = 1, sh_type = 1, sh_flags = 6, sh_addr = 0x8048001, sh_offset = 1,
     sh_size = 2, sh_link = 0, sh_info = 0, sh_addralign = 1, sh_entsize = 0,
     name = Some ''.text''\<rparr>"

definition c2_elf :: Elf where
  "c2_elf = \<lparr>elf_name = ''a.out'', data = [0x7f, 0x31, 0xa5, 0x00], header = None,
     sections = Some [(1, [c2_text])], string_table_offset = None\<rparr>"

text \<open>
  Notions for the properties of the Code Cave Finder. \<open>zero_run d sec off n\<close>: the
  \<open>n\<close> bytes at section-relative offset \<open>off\<close> lie inside the section and inside the
  buffer, and are all zero. \<open>has_run\<close>: the section has such a run somewhere.
  \<open>in_bounds\<close>: the file range of the section lies inside the buffer.
  \<open>cave_at\<close>: the pair (virtual address, file offset) of a section-relative offset.
  \<open>iteration_order\<close>: the sections in the order in which the two nested \<open>for\<close> loops
  over the dict visit them.
\<close>

definition zero_run :: "byte list \<Rightarrow> Section \<Rightarrow> nat \<Rightarrow> nat \<Rightarrow> bool" where
  "zero_run d sec off n =
     (off + n \<le> sh_size sec \<and>
      (\<forall>j\<in>set [0..<n]. sh_offset sec + off + j < length d \<and> d ! (sh_offset sec + off + j) = 0))"

definition has_run :: "byte list \<Rightarrow> Section \<Rightarrow> nat \<Rightarrow> bool" where
  "has_run d sec n = (\<exists>off\<in>set [0..<Suc (sh_size sec)]. zero_run d sec off n)"

definition in_bounds :: "byte list \<Rightarrow> Section \<Rightarrow> bool" where
  "in_bounds d sec = (sh_offset sec + sh_size sec \<le> length d)"

definition cave_at :: "Section \<Rightarrow> nat \<Rightarrow> nat \<times> nat" where
  "cave_at sec off = (sh_addr sec + off, sh_offset sec + off)"

definition iteration_order :: "(nat \<times> Section list) list \<Rightarrow> Section list" where
  "iteration_order dct = concat (map snd dct)"

text \<open>A seven-byte buffer with one section of five bytes at offset 1: a single zero byte
  at section offset 1, and two zero bytes at the very end of the section.\<close>

definition c3_sec :: Section where
  "c3_sec = \<lparr>sh_name = 0, sh_type = 1, sh_flags = 2, sh_addr = 0x1000, sh_offset = 1,
     sh_size = 5, sh_link = 0, sh_info = 0, sh_addralign = 1, sh_entsize = 0,
     name = Some ''.data''\<rparr>"

definition c3_elf :: Elf where
  "c3_elf = \<lparr>elf_name = ''a.out'', data = [0x00, 0x01, 0x00, 0x02, 0x00, 0x00, 0x03], header = None,
     sections = Some [(1, [c3_sec])], string_table_offset = None\<rparr>"

text \<open>
  The section table as the first loop of \<open>parse_sections_header\<close> reads it:
  \<open>table_entries\<close> are the entries of index 1 to \<open>e_shnum - 1\<close>, unpacked, in table order.
  \<open>unnamed\<close> is a section as that loop creates it, before the second loop has set its
  name. \<open>build_dict\<close> is the dict that the first loop builds from the entries.
  \<open>group_order\<close> lists the sections by type: the types in the order of their first
  appearance (\<open>first_occurrences\<close>), and the sections of one type in table order.
\<close>

definition unnamed :: "Section \<Rightarrow> Section" where
  "unnamed sec = sec\<lparr>name := None\<rparr>"

definition table_entries :: "elf_header \<Rightarrow> byte list \<Rightarrow> (error + Section) list" where
  "table_entries h d =
     map (\<lambda>i. unpack_section
                (py_slice (py_slice d (e_shoff h) (e_shoff h + e_shnum h * e_shentsize h))
                   (i * e_shentsize h) (i * e_shentsize h + e_shentsize h)))
       [1..<e_shnum h]"

definition first_occurrences :: "'a list \<Rightarrow> 'a list" where
  "first_occurrences xs = rev (remdups (rev xs))"

definition group_order :: "Section list \<Rightarrow> Section list" where
  "group_order table =
     concat (map (\<lambda>ty. filter (\<lambda>sec. sh_type sec = ty) table)
               (first_occurrences (map sh_type table)))"

definition build_dict :: "Section list \<Rightarrow> (nat \<times> Section list) list" where
  "build_dict table = foldl (\<lambda>dct sec. dict_append dct (sh_type sec) sec) [] table"

text \<open>
  A small ELF32 image of 248 bytes. Bytes 0..51 are the header (entry point 0x08048034,
  section header table at offset 88, four entries of 40 bytes, string table index 3);
  bytes 52..55 are \<open>.text\<close>; bytes 56..77 are the string table
  (a zero byte, then the names \<open>.text\<close>, \<open>.bss\<close> and \<open>.shstrtab\<close>, each followed by a
  zero byte); bytes 78..87 are zero padding; the section
  header table follows: the null entry, \<open>.text\<close> (type 1, offset 52, size 4),
  \<open>.bss\<close> (type 8, address 0x08049000, offset 80, size 8: it has no bytes in the
  file, its offset falls into the padding) and \<open>.shstrtab\<close> (type 3, offset 56,
  size 22).
\<close>

definition bss_image :: "byte list" where
  "bss_image =
     [0x7f, 0x45, 0x4c, 0x46, 0x01, 0x01, 0x01, 0x00, 0x00, 0x00, 0x00, 0x00, 0x00, 0x00, 0x00, 0x00]
     @ [0x02, 0x00, 0x03, 0x00, 0x01, 0x00, 0x00, 0x00]
     @ [0x34, 0x80, 0x04, 0x08, 0x00, 0x00, 0x00, 0x00, 0x58, 0x00, 0x00, 0x00]
     @ [0x00, 0x00, 0x00, 0x00, 0x34, 0x00, 0x20, 0x00, 0x00, 0x00, 0x28, 0x00, 0x04, 0x00, 0x03, 0x00]
     @ [0x31, 0xc0, 0x40, 0xc3]
     @ [0x00, 0x2e, 0x74, 0x65, 0x78, 0x74, 0x00, 0x2e, 0x62, 0x73, 0x73, 0x00, 0x2e, 0x73, 0x68, 0x73, 0x74, 0x72, 0x74, 0x61, 0x62, 0x00]
     @ [0x00, 0x00, 0x00, 0x00, 0x00, 0x00, 0x00, 0x00, 0x00, 0x00]
     @ [0x00, 0x00, 0x00, 0x00, 0x00, 0x00, 0x00, 0x00, 0x00, 0x00, 0x00, 0x00, 0x00, 0x00, 0x00, 0x00, 0x00, 0x00, 0x00, 0x00, 0x00, 0x00, 0x00, 0x00, 0x00, 0x00, 0x00, 0x00, 0x00, 0x00, 0x00, 0x00, 0x00, 0x00, 0x00, 0x00, 0x00, 0x00, 0x00, 0x00]
     @ [0x01, 0x00, 0x00, 0x00, 0x01, 0x00, 0x00, 0x00, 0x06, 0x00, 0x00, 0x00, 0x34, 0x80, 0x04, 0x08, 0x34, 0x00, 0x00, 0x00, 0x04, 0x00, 0x00, 0x00, 0x00, 0x00, 0x00, 0x00, 0x00, 0x00, 0x00, 0x00, 0x01, 0x00, 0x00, 0x00, 0x00, 0x00, 0x00, 0x00]
     @ [0x07, 0x00, 0x00, 0x00, 0x08, 0x00, 0x00, 0x00, 0x03, 0x00, 0x00, 0x00, 0x00, 0x90, 0x04, 0x08, 0x50, 0x00, 0x00, 0x00, 0x08, 0x00, 0x00, 0x00, 0x00, 0x00, 0x00, 0x00, 0x00, 0x00, 0x00, 0x00, 0x04, 0x00, 0x00, 0x00, 0x00, 0x00, 0x00, 0x00]
     @ [0x0c, 0x00, 0x00, 0x00, 0x03, 0x00, 0x00, 0x00, 0x00, 0x00, 0x00, 0x00, 0x00, 0x00, 0x00, 0x00, 0x38, 0x00, 0x00, 0x00, 0x16, 0x00, 0x00, 0x00, 0x00, 0x00, 0x00, 0x00, 0x00, 0x00, 0x00, 0x00, 0x01, 0x00, 0x00, 0x00, 0x00, 0x00, 0x00, 0x00]"

definition bss_elf :: Elf where
  "bss_elf = \<lparr>elf_name = ''a.out'', data = bss_image, header = None, sections = None,
     string_table_offset = None\<rparr>"

definition bss_header :: elf_header where
  "bss_header = \<lparr>e_ident = [0x7f, 0x45, 0x4c, 0x46, 1, 1, 1, 0, 0, 0, 0, 0, 0, 0, 0, 0],
     e_type = 2, e_machine = 3, e_version = 1, e_entry = 0x08048034, e_phoff = 0,
     e_shoff = 88, e_flags = 0, e_ehsize = 52, e_phentsize = 32, e_phnum = 0,
     e_shentsize = 40, e_shnum = 4, e_shstrndx = 3\<rparr>"

definition bss_text :: Section where
  "bss_text = \<lparr>sh_name = 1, sh_type = 1, sh_flags = 6, sh_addr = 0x08048034, sh_offset = 52,
     sh_size = 4, sh_link = 0, sh_info = 0, sh_addralign = 1, sh_entsize = 0,
     name = Some ''.text''\<rparr>"

definition bss_bss :: Section where
  "bss_bss = \<lparr>sh_name = 7, sh_type = 8, sh_flags = 3, sh_addr = 0x08049000, sh_offset = 80,
     sh_size = 8, sh_link = 0, sh_info = 0, sh_addralign = 4, sh_entsize = 0,
     name = Some ''.bss''\<rparr>"

definition bss_shstrtab :: Section where
  "bss_shstrtab = \<lparr>sh_name = 12, sh_type = 3, sh_flags = 0, sh_addr = 0, sh_offset = 56,
     sh_size = 22, sh_link = 0, sh_info = 0, sh_addralign = 1, sh_entsize = 0,
     name = Some ''.shstrtab''\<rparr>"

text \<open>The object after \<open>parse_header\<close> and \<open>parse_sections_header\<close> on that image.\<close>

definition bss_parsed :: Elf where
  "bss_parsed = \<lparr>elf_name = ''a.out'', data = bss_image, header = Some bss_header,
     sections = Some [(1, [bss_text]), (8, [bss_bss]), (3, [bss_shstrtab])],
     string_table_offset = Some 56\<rparr>"

text \<open>
  A second ELF32 image, of 304 bytes, with four sections after the null entry, in this
  table order: \<open>.text\<close> (index 1, type 1, offset 52, size 4, no zero byte),
  \<open>.note\<close> (index 2, type 7, offset 56, size 8, seven zero bytes from its offset 1),
  \<open>.data\<close> (index 3, type 1, offset 64, size 8, seven zero bytes from its offset 1)
  and \<open>.shstrtab\<close> (index 4, type 3, offset 72, size 29). The section header table
  is at offset 104.
\<close>

definition note_image :: "byte list" where
  "note_image =
     [0x7f, 0x45, 0x4c, 0x46, 0x01, 0x01, 0x01, 0x00, 0x00, 0x00, 0x00, 0x00, 0x00, 0x00, 0x00, 0x00]
     @ [0x02, 0x00, 0x03, 0x00, 0x01, 0x00, 0x00, 0x00]
     @ [0x34, 0x80, 0x04, 0x08, 0x00, 0x00, 0x00, 0x00, 0x68, 0x00, 0x00, 0x00]
     @ [0x00, 0x00, 0x00, 0x00, 0x34, 0x00, 0x20, 0x00, 0x00, 0x00, 0x28, 0x00, 0x05, 0x00, 0x04, 0x00]
     @ [0x31, 0xc0, 0x40, 0xc3]
     @ [0x04, 0x00, 0x00, 0x00, 0x00, 0x00, 0x00, 0x00]
     @ [0x2a, 0x00, 0x00, 0x00, 0x00, 0x00, 0x00, 0x00]
     @ [0x00, 0x2e, 0x74, 0x65, 0x78, 0x74, 0x00, 0x2e, 0x6e, 0x6f, 0x74, 0x65, 0x00, 0x2e, 0x64, 0x61, 0x74, 0x61, 0x00, 0x2e, 0x73, 0x68, 0x73, 0x74, 0x72, 0x74, 0x61, 0x62, 0x00]
     @ [0x00, 0x00, 0x00]
     @ [0x00, 0x00, 0x00, 0x00, 0x00, 0x00, 0x00, 0x00, 0x00, 0x00, 0x00, 0x00, 0x00, 0x00, 0x00, 0x00, 0x00, 0x00, 0x00, 0x00, 0x00, 0x00, 0x00, 0x00, 0x00, 0x00, 0x00, 0x00, 0x00, 0x00, 0x00, 0x00, 0x00, 0x00, 0x00, 0x00, 0x00, 0x00, 0x00, 0x00]
     @ [0x01, 0x00, 0x00, 0x00, 0x01, 0x00, 0x00, 0x00, 0x06, 0x00, 0x00, 0x00, 0x34, 0x80, 0x04, 0x08, 0x34, 0x00, 0x00, 0x00, 0x04, 0x00, 0x00, 0x00, 0x00, 0x00, 0x00, 0x00, 0x00, 0x00, 0x00, 0x00, 0x01, 0x00, 0x00, 0x00, 0x00, 0x00, 0x00, 0x00]
     @ [0x07, 0x00, 0x00, 0x00, 0x07, 0x00, 0x00, 0x00, 0x02, 0x00, 0x00, 0x00, 0x38, 0x80, 0x04, 0x08, 0x38, 0x00, 0x00, 0x00, 0x08, 0x00, 0x00, 0x00, 0x00, 0x00, 0x00, 0x00, 0x00, 0x00, 0x00, 0x00, 0x04, 0x00, 0x00, 0x00, 0x00, 0x00, 0x00, 0x00]
     @ [0x0d, 0x00, 0x00, 0x00, 0x01, 0x00, 0x00, 0x00, 0x03, 0x00, 0x00, 0x00, 0x40, 0x90, 0x04, 0x08, 0x40, 0x00, 0x00, 0x00, 0x08, 0x00, 0x00, 0x00, 0x00, 0x00, 0x00, 0x00, 0x00, 0x00, 0x00, 0x00, 0x04, 0x00, 0x00, 0x00, 0x00, 0x00, 0x00, 0x00]
     @ [0x13, 0x00, 0x00, 0x00, 0x03, 0x00, 0x00, 0x00, 0x00, 0x00, 0x00, 0x00, 0x00, 0x00, 0x00, 0x00, 0x48, 0x00, 0x00, 0x00, 0x1d, 0x00, 0x00, 0x00, 0x00, 0x00, 0x00, 0x00, 0x00, 0x00, 0x00, 0x00, 0x01, 0x00, 0x00, 0x00, 0x00, 0x00, 0x00, 0x00]"

definition note_elf :: Elf where
  "note_elf = \<lparr>elf_name = ''b.out'', data = note_image, header = None, sections = None,
     string_table_offset = None\<rparr>"

definition note_header :: elf_header where
  "note_header = \<lparr>e_ident = [0x7f, 0x45, 0x4c, 0x46, 1, 1, 1, 0, 0, 0, 0, 0, 0, 0, 0, 0],
     e_type = 2, e_machine = 3, e_version = 1, e_entry = 0x08048034, e_phoff = 0,
     e_shoff = 104, e_flags = 0, e_ehsize = 52, e_phentsize = 32, e_phnum = 0,
     e_shentsize = 40, e_shnum = 5, e_shstrndx = 4\<rparr>"

definition note_text :: Section where
  "note_text = \<lparr>sh_name = 1, sh_type = 1, sh_flags = 6, sh_addr = 0x08048034, sh_offset = 52,
     sh_size = 4, sh_link = 0, sh_info = 0, sh_addralign = 1, sh_entsize = 0,
     name = Some ''.text''\<rparr>"

definition note_note :: Section where
  "note_note = \<lparr>sh_name = 7, sh_type = 7, sh_flags = 2, sh_addr = 0x08048038, sh_offset = 56,
     sh_size = 8, sh_link = 0, sh_info = 0, sh_addralign = 4, sh_entsize = 0,
     name = Some ''.note''\<rparr>"

definition note_data :: Section where
  "note_data = \<lparr>sh_name = 13, sh_type = 1, sh_flags = 3, sh_addr = 0x08049040, sh_offset = 64,
     sh_size = 8, sh_link = 0, sh_info = 0, sh_addralign = 4, sh_entsize = 0,
     name = Some ''.data''\<rparr>"

definition note_shstrtab :: Section where
  "note_shstrtab = \<lparr>sh_name = 19, sh_type = 3, sh_flags = 0, sh_addr = 0, sh_offset = 72,
     sh_size = 29, sh_link = 0, sh_info = 0, sh_addralign = 1, sh_entsize = 0,
     name = Some ''.shstrtab''\<rparr>"

text \<open>The object after \<open>parse_header\<close> and \<open>parse_sections_header\<close> on that image: the
  dict holds the two sections of type 1 in one group, before \<open>.note\<close>.\<close>

definition note_parsed :: Elf where
  "note_parsed = \<lparr>elf_name = ''b.out'', data = note_image, header = Some note_header,
     sections = Some [(1, [note_text, note_data]), (7, [note_note]), (3, [note_shstrtab])],
     string_table_offset = Some 72\<rparr>"

text \<open>
  Two buffers for the String Table Resolver. The first is the string table of the
  specification's example, the names \<open>.text\<close> and \<open>.data\<close> each followed by a zero byte,
  at offset 0. The second has its string table at offset 1 and ends with the name
  \<open>.text\<close>, with no zero byte after it.
\<close>

definition strtab_elf :: Elf where
  "strtab_elf = \<lparr>elf_name = ''c.out'',
     data = [0x2e, 0x74, 0x65, 0x78, 0x74, 0x00, 0x2e, 0x64, 0x61, 0x74, 0x61, 0x00],
     header = None, sections = None, string_table_offset = Some 0\<rparr>"

definition unterminated_elf :: Elf where
  "unterminated_elf = \<lparr>elf_name = ''d.out'', data = [0x00, 0x2e, 0x74, 0x65, 0x78, 0x74],
     header = None, sections = None, string_table_offset = Some 1\<rparr>"

text \<open>A six-byte buffer, and an assembler that always fails, for calls that do not
  assemble anything.\<close>

definition c7_elf :: Elf where
  "c7_elf = \<lparr>elf_name = ''e.out'', data = [0x11, 0x22, 0x33, 0x44, 0x55, 0x66], header = None,
     sections = None, string_table_offset = None\<rparr>"

definition no_assembler :: assembler where
  "no_assembler text_addr text_size text_vaddr entry = None"

text \<open>
  Two assemblers for running the script on the first image: one gives a stub of sixteen
  bytes, the other a stub of four. \<open>bss_packed\<close> is the first image after
  \<open>pack_code 0xa5\<close>; \<open>bss_output\<close> is what the script then writes with the four-byte
  stub.
\<close>

definition long_assembler :: assembler where
  "long_assembler text_addr text_size text_vaddr entry = Some (replicate 16 0x90)"

definition short_assembler :: assembler where
  "short_assembler text_addr text_size text_vaddr entry = Some [0x60, 0x90, 0x61, 0xc3]"

definition bss_packed :: "byte list" where
  "bss_packed = bss_image[52 := 0x94, 53 := 0x65, 54 := 0xe5, 55 := 0x66]"

definition bss_output :: "byte list" where
  "bss_output =
     slice_assign (slice_assign bss_packed 24 28 [0x00, 0x90, 0x04, 0x08]) 80 84
       [0x60, 0x90, 0x61, 0xc3]"

section \<open>Verification\<close>

subsection \<open>Slices\<close>

lemma nth_py_slice: "a + i < b \<Longrightarrow> b \<le> length xs \<Longrightarrow> py_slice xs a b ! i = xs ! (a + i)"
  by (simp add: py_slice_def)

lemma length_py_slice: "length (py_slice xs a b) = min b (length xs) - a"
  by (simp add: py_slice_def)

subsection \<open>Section Encoder\<close>

lemma xor_byte_range: "0 \<le> key \<Longrightarrow> key < 256 \<Longrightarrow> 0 \<le> uint (b::byte) XOR key \<and> uint b XOR key < 256"
proof -
  assume k: "0 \<le> key" "key < 256"
  have "uint b < 2 ^ 8" using uint_bounded[of b] by simp
  moreover have "key < 2 ^ 8" using k by simp
  ultimately have "uint b XOR key < 2 ^ 8" by (intro XOR_upper) auto
  then show ?thesis using k by simp
qed

lemma xor_byte_word: "(word_of_int (uint (b::byte) XOR key) :: byte) = b XOR word_of_int key"
  by (simp add: word_wi_log_defs(4)[symmetric])


lemma pack_loop_ok:
  "0 \<le> key \<Longrightarrow> key < 256 \<Longrightarrow> distinct is \<Longrightarrow> (\<forall>i\<in>set is. off + i < length d) \<Longrightarrow>
   \<exists>d'. pack_loop d off key is = Inr d' \<and> length d' = length d \<and>
     (\<forall>j<length d. d' ! j = (if off \<le> j \<and> j - off \<in> set is then d ! j XOR word_of_int key else d ! j))"
proof (induction "is" arbitrary: d)
  case Nil
  then show ?case by simp
next
  case (Cons i rest)
  let ?d1 = "d[off + i := d ! (off + i) XOR word_of_int key]"
  have "\<exists>d'. pack_loop ?d1 off key rest = Inr d' \<and> length d' = length ?d1 \<and>
     (\<forall>j<length ?d1. d' ! j = (if off \<le> j \<and> j - off \<in> set rest then ?d1 ! j XOR word_of_int key else ?d1 ! j))"
    using Cons.prems by (intro Cons.IH) auto
  then obtain d' where d': "pack_loop ?d1 off key rest = Inr d'" "length d' = length d"
     "\<forall>j<length d. d' ! j = (if off \<le> j \<and> j - off \<in> set rest then ?d1 ! j XOR word_of_int key else ?d1 ! j)"
    by auto
  have step: "pack_loop d off key (i # rest) = pack_loop ?d1 off key rest"
    using Cons.prems xor_byte_range[of key "d ! (off + i)"] by (simp add: Let_def xor_byte_word)
  have "\<forall>j<length d. d' ! j = (if off \<le> j \<and> j - off \<in> set (i # rest) then d ! j XOR word_of_int key else d ! j)"
  proof (intro allI impI)
    fix j assume j: "j < length d"
    show "d' ! j = (if off \<le> j \<and> j - off \<in> set (i # rest) then d ! j XOR word_of_int key else d ! j)"
    proof (cases "j = off + i")
      case True
      then have "j - off \<notin> set rest" using Cons.prems(3) by simp
      then show ?thesis using d'(3) j True by simp
    next
      case False
      then have "\<not> (off \<le> j \<and> j - off = i)" by auto
      then show ?thesis using d'(3) j False by auto
    qed
  qed
  then show ?case using step d' by simp
qed


text \<open>
  C2. The transform of the Section Encoder is an involution. For a buffer whose \<open>.text\<close>
  section lies inside it and a key that is one byte, \<open>pack_code\<close> succeeds, it replaces
  each byte of the section's file range by its XOR with the key, and a second
  \<open>pack_code\<close> with the same key succeeds and gives back the original buffer.
\<close>

theorem pack_code_involution:
  assumes sec: "get_section e ''.text'' = Inr (Some text_sec)"
    and bounds: "sh_offset text_sec + sh_size text_sec \<le> length (data e)"
    and key: "0 \<le> K" "K < 256"
  shows "\<exists>e1 e2. pack_code e K = Inr e1 \<and> pack_code e1 K = Inr e2 \<and> data e2 = data e \<and>
           py_slice (data e1) (sh_offset text_sec) (sh_offset text_sec + sh_size text_sec) =
             map (\<lambda>b. b XOR word_of_int K)
               (py_slice (data e) (sh_offset text_sec) (sh_offset text_sec + sh_size text_sec))"
proof -
  let ?off = "sh_offset text_sec" and ?n = "sh_size text_sec"
  let ?k = "word_of_int K :: byte"
  have inb: "\<And>d. length d = length (data e) \<Longrightarrow> \<forall>i\<in>set [0..<?n]. ?off + i < length d"
    using bounds by auto
  obtain d1 where d1: "pack_loop (data e) ?off K [0..<?n] = Inr d1" "length d1 = length (data e)"
    "\<forall>j<length (data e). d1 ! j = (if ?off \<le> j \<and> j - ?off \<in> set [0..<?n] then data e ! j XOR ?k else data e ! j)"
    using pack_loop_ok[OF key, of "[0..<?n]" ?off "data e"] inb[of "data e"] by auto
  obtain d2 where d2: "pack_loop d1 ?off K [0..<?n] = Inr d2" "length d2 = length d1"
    "\<forall>j<length d1. d2 ! j = (if ?off \<le> j \<and> j - ?off \<in> set [0..<?n] then d1 ! j XOR ?k else d1 ! j)"
    using pack_loop_ok[OF key, of "[0..<?n]" ?off d1] inb[of d1] d1(2) by auto
  have restored: "d2 = data e"
  proof (rule nth_equalityI)
    show "length d2 = length (data e)" using d1(2) d2(2) by simp
  next
    fix j assume "j < length d2"
    then have j: "j < length (data e)" using d1(2) d2(2) by simp
    show "d2 ! j = data e ! j"
      using d1(3) d2(3) d1(2) j by (simp add: xor.assoc)
  qed
  have p1: "pack_code e K = Inr (e\<lparr>data := d1\<rparr>)"
    using sec d1(1) by (simp add: pack_code_def)
  have sec1: "get_section (e\<lparr>data := d1\<rparr>) ''.text'' = Inr (Some text_sec)"
    using sec by (simp add: get_section_def)
  have p2: "pack_code (e\<lparr>data := d1\<rparr>) K = Inr (e\<lparr>data := d1\<rparr>\<lparr>data := d2\<rparr>)"
    using sec1 d2(1) by (simp add: pack_code_def)
  have enc: "py_slice d1 ?off (?off + ?n) = map (\<lambda>b. b XOR ?k) (py_slice (data e) ?off (?off + ?n))"
  proof (rule nth_equalityI)
    show "length (py_slice d1 ?off (?off + ?n)) = length (map (\<lambda>b. b XOR ?k) (py_slice (data e) ?off (?off + ?n)))"
      using d1(2) by (simp add: length_py_slice)
  next
    fix i assume "i < length (py_slice d1 ?off (?off + ?n))"
    then have i: "i < ?n" using d1(2) bounds by (simp add: length_py_slice)
    then have "?off + i < length (data e)" using bounds by simp
    then show "py_slice d1 ?off (?off + ?n) ! i = map (\<lambda>b. b XOR ?k) (py_slice (data e) ?off (?off + ?n)) ! i"
      using i d1(2) d1(3) bounds by (simp add: nth_py_slice length_py_slice)
  qed
  show ?thesis using p1 p2 restored enc by simp
qed

theorem pack_code_involution_witness:
  "get_section c2_elf ''.text'' = Inr (Some c2_text) \<and>
   sh_offset c2_text + sh_size c2_text \<le> length (data c2_elf) \<and>
   pack_code c2_elf 0xa5 = Inr (c2_elf\<lparr>data := [0x7f, 0x94, 0x00, 0x00]\<rparr>) \<and>
   pack_code (c2_elf\<lparr>data := [0x7f, 0x94, 0x00, 0x00]\<rparr>) 0xa5 = Inr c2_elf"
proof -
  have s: "get_section c2_elf ''.text'' = Inr (Some c2_text)"
    by (simp add: c2_text_def c2_elf_def get_section_def)
  have b: "sh_offset c2_text + sh_size c2_text \<le> length (data c2_elf)"
    by (simp add: c2_text_def c2_elf_def)
  have p: "pack_code c2_elf 0xa5 = Inr (c2_elf\<lparr>data := [0x7f, 0x94, 0x00, 0x00]\<rparr>)"
    by (simp add: c2_text_def c2_elf_def get_section_def pack_code_def upt_conv_Cons)
  have "\<exists>e2. pack_code (c2_elf\<lparr>data := [0x7f, 0x94, 0x00, 0x00]\<rparr>) 0xa5 = Inr e2 \<and> data e2 = data c2_elf"
    using pack_code_involution[OF s b, of "0xa5"] p by auto
  then obtain e2 where e2: "pack_code (c2_elf\<lparr>data := [0x7f, 0x94, 0x00, 0x00]\<rparr>) 0xa5 = Inr e2"
      "data e2 = data c2_elf"
    by blast
  have "e2 = c2_elf"
    using e2 by (auto simp: pack_code_def get_section_def c2_elf_def split: sum.splits option.splits)
  then show ?thesis using s b p e2 by simp
qed

subsection \<open>Code Cave Finder: the scan of one section\<close>

lemma zero_run_iff:
  "zero_run d sec off n \<longleftrightarrow>
     off + n \<le> sh_size sec \<and>
     (\<forall>j<n. sh_offset sec + off + j < length d \<and> d ! (sh_offset sec + off + j) = 0)"
  by (auto simp: zero_run_def)

lemma has_run_iff: "has_run d sec n \<longleftrightarrow> (\<exists>off. zero_run d sec off n)"
  by (auto simp: has_run_def zero_run_def)

lemma py_eq_int_enum [simp]: "py_eq (PyInt n) (PyEnum m) = False"
  by (simp add: py_eq_def)

lemma scan_loop_zero:
  "index < sh_size sec \<Longrightarrow> sh_offset sec + index < length d \<Longrightarrow> d ! (sh_offset sec + index) = 0 \<Longrightarrow>
   scan_loop d sec R index seen cp =
     (if seen + 1 = R then Inr (index + 1, seen + 1, cp)
      else scan_loop d sec R (index + 1) (seen + 1) cp)"
  by (subst scan_loop.simps) (simp add: Let_def)

lemma scan_loop_nonzero:
  "index < sh_size sec \<Longrightarrow> sh_offset sec + index < length d \<Longrightarrow> d ! (sh_offset sec + index) \<noteq> 0 \<Longrightarrow>
   scan_loop d sec R index seen cp =
     (if 0 = R then Inr (index + 1, 0, index + 1)
      else scan_loop d sec R (index + 1) 0 (index + 1))"
  by (subst scan_loop.simps) (simp add: Let_def)

lemma scan_loop_end:
  "\<not> index < sh_size sec \<Longrightarrow> scan_loop d sec R index seen cp = Inr (index, seen, cp)"
  by (subst scan_loop.simps) simp

lemma scan_loop_outside:
  "index < sh_size sec \<Longrightarrow> \<not> sh_offset sec + index < length d \<Longrightarrow>
   scan_loop d sec R index seen cp = Inl IndexError"
  by (subst scan_loop.simps) simp

lemma scan_loop_finds:
  assumes R: "0 < R" and run: "zero_run d sec off R"
    and first: "\<forall>off'<off. \<not> zero_run d sec off' R"
  shows "cp \<le> off \<Longrightarrow> cp + seen = index \<Longrightarrow> seen < R \<Longrightarrow>
     (\<forall>j. cp \<le> j \<and> j < index \<longrightarrow> sh_offset sec + j < length d \<and> d ! (sh_offset sec + j) = 0) \<Longrightarrow>
     scan_loop d sec R index seen cp = Inr (off + R, R, off)"
proof (induction "off + R - index" arbitrary: index seen cp rule: less_induct)
  case less
  have size: "off + R \<le> sh_size sec"
    and zeros: "\<And>j. j < R \<Longrightarrow> sh_offset sec + off + j < length d \<and> d ! (sh_offset sec + off + j) = 0"
    using run by (auto simp: zero_run_iff)
  have lt: "index < off + R" using less.prems by simp
  then have inside: "index < sh_size sec" using size by simp
  have inbuf: "sh_offset sec + index < length d"
  proof -
    have "sh_offset sec + off + (R - 1) < length d" using zeros[of "R - 1"] R by simp
    then show ?thesis using lt by simp
  qed
  show ?case
  proof (cases "d ! (sh_offset sec + index) = 0")
    case True
    show ?thesis
    proof (cases "seen + 1 = R")
      case full: True
      have "zero_run d sec cp R"
        unfolding zero_run_iff
      proof (intro conjI allI impI)
        show "cp + R \<le> sh_size sec" using full less.prems inside by simp
      next
        fix j assume j: "j < R"
        show "sh_offset sec + cp + j < length d"
        proof (cases "cp + j = index")
          case True then show ?thesis using inbuf by (simp add: add.assoc)
        next
          case False
          then have "cp + j < index" using j full less.prems by simp
          then show ?thesis using less.prems(4) by (simp add: add.assoc)
        qed
        show "d ! (sh_offset sec + cp + j) = 0"
        proof (cases "cp + j = index")
          case True then show ?thesis using \<open>d ! (sh_offset sec + index) = 0\<close> by (simp add: add.assoc)
        next
          case False
          then have "cp + j < index" using j full less.prems by simp
          then show ?thesis using less.prems(4) by (simp add: add.assoc)
        qed
      qed
      then have "cp = off" using first less.prems(1) by (cases "cp < off") auto
      then show ?thesis
        using scan_loop_zero[OF inside inbuf True, of R seen cp] full less.prems by simp
    next
      case notfull: False
      have "scan_loop d sec R (index + 1) (seen + 1) cp = Inr (off + R, R, off)"
      proof (rule less.hyps)
        show "off + R - (index + 1) < off + R - index" using lt by simp
        show "cp \<le> off" by (rule less.prems)
        show "cp + (seen + 1) = index + 1" using less.prems by simp
        show "seen + 1 < R" using notfull less.prems by simp
        show "\<forall>j. cp \<le> j \<and> j < index + 1 \<longrightarrow>
               sh_offset sec + j < length d \<and> d ! (sh_offset sec + j) = 0"
        proof (intro allI impI)
          fix j assume "cp \<le> j \<and> j < index + 1"
          then show "sh_offset sec + j < length d \<and> d ! (sh_offset sec + j) = 0"
            using less.prems(4) inbuf True by (cases "j = index") auto
        qed
      qed
      then show ?thesis
        using scan_loop_zero[OF inside inbuf True, of R seen cp] notfull by simp
    qed
  next
    case False
    have "index < off"
    proof (rule ccontr)
      assume "\<not> index < off"
      then have "index - off < R" "off + (index - off) = index" using lt by auto
      then have "d ! (sh_offset sec + index) = 0"
        using zeros[of "index - off"] by (simp add: add.assoc)
      then show False using False by simp
    qed
    have "scan_loop d sec R (index + 1) 0 (index + 1) = Inr (off + R, R, off)"
    proof (rule less.hyps)
      show "off + R - (index + 1) < off + R - index" using lt by simp
      show "index + 1 \<le> off" using \<open>index < off\<close> by simp
      show "index + 1 + 0 = index + 1" by simp
      show "0 < R" by (rule R)
      show "\<forall>j. index + 1 \<le> j \<and> j < index + 1 \<longrightarrow>
             sh_offset sec + j < length d \<and> d ! (sh_offset sec + j) = 0"
        by auto
    qed
    then show ?thesis
      using scan_loop_nonzero[OF inside inbuf False, of R seen cp] R by simp
  qed
qed


lemma scan_loop_sound:
  "scan_loop d sec R index seen cp = Inr (i, s, c) \<Longrightarrow> cp + seen = index \<Longrightarrow>
   index \<le> sh_size sec \<Longrightarrow>
   (\<forall>j. cp \<le> j \<and> j < index \<longrightarrow> sh_offset sec + j < length d \<and> d ! (sh_offset sec + j) = 0) \<Longrightarrow>
   c + s = i \<and> i \<le> sh_size sec \<and>
   (\<forall>j. c \<le> j \<and> j < i \<longrightarrow> sh_offset sec + j < length d \<and> d ! (sh_offset sec + j) = 0)"
proof (induction "sh_size sec - index" arbitrary: index seen cp rule: less_induct)
  case less
  show ?case
  proof (cases "index < sh_size sec")
    case False
    then show ?thesis using less.prems scan_loop_end[OF False, of d R seen cp] by simp
  next
    case inside: True
    show ?thesis
    proof (cases "sh_offset sec + index < length d")
      case False
      then show ?thesis using less.prems(1) scan_loop_outside[OF inside False, of R seen cp] by simp
    next
      case inbuf: True
      show ?thesis
      proof (cases "d ! (sh_offset sec + index) = 0")
        case True
        have inv: "\<forall>j. cp \<le> j \<and> j < index + 1 \<longrightarrow>
               sh_offset sec + j < length d \<and> d ! (sh_offset sec + j) = 0"
        proof (intro allI impI)
          fix j assume "cp \<le> j \<and> j < index + 1"
          then show "sh_offset sec + j < length d \<and> d ! (sh_offset sec + j) = 0"
            using less.prems(4) inbuf True by (cases "j = index") auto
        qed
        show ?thesis
        proof (cases "seen + 1 = R")
          case True
          then have "(i, s, c) = (index + 1, seen + 1, cp)"
            using less.prems(1) scan_loop_zero[OF inside inbuf \<open>d ! (sh_offset sec + index) = 0\<close>, of R seen cp]
            by simp
          then show ?thesis using inv less.prems inside by auto
        next
          case False
          then have "scan_loop d sec R (index + 1) (seen + 1) cp = Inr (i, s, c)"
            using less.prems(1) scan_loop_zero[OF inside inbuf True, of R seen cp] by simp
          then show ?thesis
            using inv less.prems inside by (intro less.hyps[of "index + 1" "seen + 1" cp]) auto
        qed
      next
        case False
        have inv: "\<forall>j. index + 1 \<le> j \<and> j < index + 1 \<longrightarrow>
               sh_offset sec + j < length d \<and> d ! (sh_offset sec + j) = 0"
          by auto
        show ?thesis
        proof (cases "0 = R")
          case True
          then have "(i, s, c) = (index + 1, 0, index + 1)"
            using less.prems(1) scan_loop_nonzero[OF inside inbuf False, of R seen cp] by simp
          then show ?thesis using inside by auto
        next
          case nz: False
          then have "scan_loop d sec R (index + 1) 0 (index + 1) = Inr (i, s, c)"
            using less.prems(1) scan_loop_nonzero[OF inside inbuf False, of R seen cp] by simp
          then show ?thesis
            using inv inside by (intro less.hyps[of "index + 1" 0 "index + 1"]) auto
        qed
      qed
    qed
  qed
qed

lemma scan_loop_error: "scan_loop d sec R index seen cp = Inl err \<Longrightarrow> err = IndexError"
proof (induction "sh_size sec - index" arbitrary: index seen cp rule: less_induct)
  case less
  show ?case
  proof (cases "index < sh_size sec")
    case False
    then show ?thesis using less.prems scan_loop_end[OF False, of d R seen cp] by simp
  next
    case inside: True
    show ?thesis
    proof (cases "sh_offset sec + index < length d")
      case False
      then show ?thesis using less.prems(1) scan_loop_outside[OF inside False, of R seen cp] by simp
    next
      case inbuf: True
      show ?thesis
      proof (cases "d ! (sh_offset sec + index) = 0")
        case True
        then have "seen + 1 \<noteq> R" "scan_loop d sec R (index + 1) (seen + 1) cp = Inl err"
          using less.prems(1) scan_loop_zero[OF inside inbuf True, of R seen cp]
          by (auto split: if_splits)
        then show ?thesis using inside by (intro less.hyps[of "index + 1" "seen + 1" cp]) auto
      next
        case False
        then have "scan_loop d sec R (index + 1) 0 (index + 1) = Inl err"
          using less.prems(1) scan_loop_nonzero[OF inside inbuf False, of R seen cp]
          by (auto split: if_splits)
        then show ?thesis using inside by (intro less.hyps[of "index + 1" 0 "index + 1"]) auto
      qed
    qed
  qed
qed

lemma scan_loop_in_bounds:
  "in_bounds d sec \<Longrightarrow> \<exists>i s c. scan_loop d sec R index seen cp = Inr (i, s, c)"
proof (induction "sh_size sec - index" arbitrary: index seen cp rule: less_induct)
  case less
  show ?case
  proof (cases "index < sh_size sec")
    case False
    then show ?thesis using scan_loop_end[OF False, of d R seen cp] by simp
  next
    case inside: True
    then have inbuf: "sh_offset sec + index < length d"
      using less.prems by (simp add: in_bounds_def)
    show ?thesis
    proof (cases "d ! (sh_offset sec + index) = 0")
      case True
      have "\<exists>i s c. scan_loop d sec R (index + 1) (seen + 1) cp = Inr (i, s, c)"
        using inside less.prems by (intro less.hyps) auto
      then show ?thesis
        using scan_loop_zero[OF inside inbuf True, of R seen cp] by auto
    next
      case False
      have "\<exists>i s c. scan_loop d sec R (index + 1) 0 (index + 1) = Inr (i, s, c)"
        using inside less.prems by (intro less.hyps) auto
      then show ?thesis
        using scan_loop_nonzero[OF inside inbuf False, of R seen cp] by auto
    qed
  qed
qed

lemma scan_section_sound:
  assumes "scan_section d sec R = Inr (Some loc)"
  shows "\<exists>off. zero_run d sec off R \<and> loc = cave_at sec off"
proof -
  obtain i s c where r: "scan_loop d sec R 0 0 0 = Inr (i, s, c)" and s: "\<not> s < R"
    and loc: "loc = (sh_addr sec + c, sh_offset sec + c)"
    using assms by (auto simp: scan_section_def split: sum.splits if_splits option.splits)
  have inv: "c + s = i \<and> i \<le> sh_size sec \<and>
     (\<forall>j. c \<le> j \<and> j < i \<longrightarrow> sh_offset sec + j < length d \<and> d ! (sh_offset sec + j) = 0)"
    by (rule scan_loop_sound[OF r]) auto
  have "zero_run d sec c R"
    unfolding zero_run_iff
  proof (intro conjI allI impI)
    show "c + R \<le> sh_size sec" using inv s by simp
  next
    fix j assume "j < R"
    then have "c \<le> c + j \<and> c + j < i" using inv s by auto
    then have "sh_offset sec + (c + j) < length d \<and> d ! (sh_offset sec + (c + j)) = 0"
      using inv by blast
    then show "sh_offset sec + c + j < length d" "d ! (sh_offset sec + c + j) = 0"
      by (simp_all add: add.assoc)
  qed
  then show ?thesis using loc by (auto simp: cave_at_def)
qed

lemma scan_section_first:
  assumes "0 < R" "zero_run d sec off R" "\<forall>off'<off. \<not> zero_run d sec off' R"
  shows "scan_section d sec R =
           (case name sec of None \<Rightarrow> Inl AttributeError | Some s \<Rightarrow> Inr (Some (cave_at sec off)))"
proof -
  have "scan_loop d sec R 0 0 0 = Inr (off + R, R, off)"
    using assms by (intro scan_loop_finds) auto
  then show ?thesis
    by (simp add: scan_section_def cave_at_def del: scan_loop.simps split: option.splits)
qed

lemma scan_section_None: "scan_section d sec R = Inr None \<Longrightarrow> \<not> has_run d sec R"
proof
  assume none: "scan_section d sec R = Inr None" and "has_run d sec R"
  then have ex: "\<exists>off. zero_run d sec off R" by (simp add: has_run_iff)
  have R: "0 < R"
    using none
    by (cases "scan_loop d sec R 0 0 0")
       (auto simp: scan_section_def simp del: scan_loop.simps
          split: prod.splits option.splits if_splits)
  define off where "off = (LEAST off. zero_run d sec off R)"
  have "zero_run d sec off R" unfolding off_def using ex by (rule LeastI_ex)
  moreover have "\<forall>off'<off. \<not> zero_run d sec off' R"
    unfolding off_def using not_less_Least by blast
  ultimately have "scan_section d sec R =
      (case name sec of None \<Rightarrow> Inl AttributeError | Some s \<Rightarrow> Inr (Some (cave_at sec off)))"
    using R by (intro scan_section_first) auto
  then show False using none by (simp split: option.splits)
qed

lemma scan_section_no_run_cases:
  assumes "\<not> has_run d sec R"
  shows "scan_section d sec R = Inr None \<or> scan_section d sec R = Inl IndexError"
proof (cases "scan_loop d sec R 0 0 0")
  case (Inl err)
  then show ?thesis using scan_loop_error[OF Inl] by (simp add: scan_section_def)
next
  case (Inr r)
  obtain i s c where r: "r = (i, s, c)" by (cases r)
  have inv: "c + s = i \<and> i \<le> sh_size sec \<and>
     (\<forall>j. c \<le> j \<and> j < i \<longrightarrow> sh_offset sec + j < length d \<and> d ! (sh_offset sec + j) = 0)"
    using Inr r by (intro scan_loop_sound[of d sec R 0 0 0]) auto
  have "s < R"
  proof (rule ccontr)
    assume full: "\<not> s < R"
    have "zero_run d sec c R"
      unfolding zero_run_iff
    proof (intro conjI allI impI)
      show "c + R \<le> sh_size sec" using inv full by simp
    next
      fix j assume "j < R"
      then have "c \<le> c + j \<and> c + j < i" using inv full by auto
      then have "sh_offset sec + (c + j) < length d \<and> d ! (sh_offset sec + (c + j)) = 0"
        using inv by blast
      then show "sh_offset sec + c + j < length d" "d ! (sh_offset sec + c + j) = 0"
        by (simp_all add: add.assoc)
    qed
    then show False using assms has_run_iff by blast
  qed
  then show ?thesis using Inr r by (simp add: scan_section_def)
qed

lemma scan_section_no_run:
  assumes "\<not> has_run d sec R" "in_bounds d sec"
  shows "scan_section d sec R = Inr None"
proof -
  obtain i s c where r: "scan_loop d sec R 0 0 0 = Inr (i, s, c)"
    using scan_loop_in_bounds[OF assms(2)] by blast
  then have "scan_section d sec R \<noteq> Inl IndexError"
    by (auto simp: scan_section_def split: option.splits)
  then show ?thesis using scan_section_no_run_cases[OF assms(1)] by simp
qed

lemma find_cave_secs_append:
  "find_cave_secs d R (xs @ ys) =
     (case find_cave_secs d R xs of
        Inl err \<Rightarrow> Inl err
      | Inr (Some loc) \<Rightarrow> Inr (Some loc)
      | Inr None \<Rightarrow> find_cave_secs d R ys)"
  by (induction xs) (auto split: sum.splits option.splits)

lemma find_cave_groups_flat:
  "find_cave_groups d R dct = find_cave_secs d R (iteration_order dct)"
  by (induction dct)
     (auto simp: iteration_order_def find_cave_secs_append split: sum.splits option.splits)

lemma find_cave_secs_skip:
  "\<forall>s\<in>set pre. scan_section d s R = Inr None \<Longrightarrow>
   find_cave_secs d R (pre @ rest) = find_cave_secs d R rest"
  by (induction pre) auto

lemma find_cave_secs_Some:
  "find_cave_secs d R secs = Inr (Some loc) \<Longrightarrow>
   \<exists>pre sec post. secs = pre @ sec # post \<and> (\<forall>s\<in>set pre. scan_section d s R = Inr None) \<and>
     scan_section d sec R = Inr (Some loc)"
proof (induction secs)
  case Nil
  then show ?case by simp
next
  case (Cons a secs)
  show ?case
  proof (cases "scan_section d a R")
    case (Inl err)
    then show ?thesis using Cons.prems by simp
  next
    case (Inr r)
    show ?thesis
    proof (cases r)
      case None
      then have "find_cave_secs d R secs = Inr (Some loc)" using Cons.prems Inr by simp
      then obtain pre sec post where
        "secs = pre @ sec # post" "\<forall>s\<in>set pre. scan_section d s R = Inr None"
        "scan_section d sec R = Inr (Some loc)"
        using Cons.IH by blast
      then have "a # secs = (a # pre) @ sec # post \<and>
          (\<forall>s\<in>set (a # pre). scan_section d s R = Inr None) \<and>
          scan_section d sec R = Inr (Some loc)"
        using Inr None by simp
      then show ?thesis by blast
    next
      case (Some l)
      then have "a # secs = [] @ a # secs \<and> (\<forall>s\<in>set []. scan_section d s R = Inr None) \<and>
          scan_section d a R = Inr (Some loc)"
        using Cons.prems Inr by simp
      then show ?thesis by blast
    qed
  qed
qed

lemma find_cave_secs_no_run:
  "\<forall>s\<in>set secs. \<not> has_run d s R \<Longrightarrow>
   find_cave_secs d R secs = Inr None \<or> find_cave_secs d R secs = Inl IndexError"
proof (induction secs)
  case Nil
  then show ?case by simp
next
  case (Cons a secs)
  have "scan_section d a R = Inr None \<or> scan_section d a R = Inl IndexError"
    using Cons.prems by (intro scan_section_no_run_cases) simp
  then show ?case using Cons by auto
qed

lemma find_cave_secs_no_run_in_bounds:
  "\<forall>s\<in>set secs. \<not> has_run d s R \<and> in_bounds d s \<Longrightarrow> find_cave_secs d R secs = Inr None"
  by (induction secs) (auto simp: scan_section_no_run)

text \<open>
  C3. For a required size \<open>R\<close> of at least one byte (a run, and a run of \<open>R - 1\<close> bytes,
  presuppose it): when a section has \<open>R\<close> zero bytes at section offset \<open>off\<close> and no
  earlier offset of that section starts \<open>R\<close> zero bytes, the section has its name (as
  every section has after \<open>parse_sections_header\<close>), and the sections visited before
  it lie in the buffer and have no such run, then \<open>find_cave R\<close> returns
  \<open>(sh_addr + off, sh_offset + off)\<close>; nothing is asked of where the run ends, so a
  run that fills the last \<open>R\<close> bytes of the section is selected (the witness is one).
  And every location \<open>find_cave R\<close> returns is the start of \<open>R\<close> zero bytes inside a
  section: a shorter run is never selected.
\<close>

theorem find_cave_first_run:
  assumes "sections e = Some dct" and "0 < R"
  shows "(\<forall>pre sec post off.
            iteration_order dct = pre @ sec # post \<and>
            (\<forall>s\<in>set pre. in_bounds (data e) s \<and> \<not> has_run (data e) s R) \<and>
            zero_run (data e) sec off R \<and> (\<forall>off'<off. \<not> zero_run (data e) sec off' R) \<and>
            name sec \<noteq> None \<longrightarrow>
            find_cave e R = Inr (Some (sh_addr sec + off, sh_offset sec + off))) \<and>
         (\<forall>loc. find_cave e R = Inr (Some loc) \<longrightarrow>
            (\<exists>sec\<in>set (iteration_order dct). \<exists>off.
               zero_run (data e) sec off R \<and> loc = (sh_addr sec + off, sh_offset sec + off)))"
proof (intro conjI allI impI)
  fix pre sec post off
  assume h: "iteration_order dct = pre @ sec # post \<and>
            (\<forall>s\<in>set pre. in_bounds (data e) s \<and> \<not> has_run (data e) s R) \<and>
            zero_run (data e) sec off R \<and> (\<forall>off'<off. \<not> zero_run (data e) sec off' R) \<and>
            name sec \<noteq> None"
  then have "\<forall>s\<in>set pre. scan_section (data e) s R = Inr None"
    by (simp add: scan_section_no_run)
  then have "find_cave_secs (data e) R (pre @ sec # post) = find_cave_secs (data e) R (sec # post)"
    by (rule find_cave_secs_skip)
  moreover have "scan_section (data e) sec R = Inr (Some (cave_at sec off))"
    using h assms(2) scan_section_first[of R "data e" sec off] by auto
  ultimately show "find_cave e R = Inr (Some (sh_addr sec + off, sh_offset sec + off))"
    using assms(1) h by (simp add: find_cave_def find_cave_groups_flat cave_at_def)
next
  fix loc
  assume "find_cave e R = Inr (Some loc)"
  then have "find_cave_secs (data e) R (iteration_order dct) = Inr (Some loc)"
    using assms(1) by (simp add: find_cave_def find_cave_groups_flat)
  then obtain pre sec post where p: "iteration_order dct = pre @ sec # post"
    "scan_section (data e) sec R = Inr (Some loc)"
    using find_cave_secs_Some by blast
  then obtain off where "zero_run (data e) sec off R" "loc = cave_at sec off"
    using scan_section_sound by blast
  then show "\<exists>sec\<in>set (iteration_order dct). \<exists>off.
               zero_run (data e) sec off R \<and> loc = (sh_addr sec + off, sh_offset sec + off)"
    using p(1) by (auto simp: cave_at_def)
qed

lemma c3_run: "zero_run (data c3_elf) c3_sec 3 2"
  by (simp add: zero_run_def c3_elf_def c3_sec_def upt_conv_Cons)

lemma c3_shorter: "\<not> zero_run (data c3_elf) c3_sec 0 2 \<and> \<not> zero_run (data c3_elf) c3_sec 1 2 \<and>
   \<not> zero_run (data c3_elf) c3_sec 2 2"
  by (simp add: zero_run_def c3_elf_def c3_sec_def upt_conv_Cons)

theorem find_cave_first_run_witness:
  "sections c3_elf = Some [(1, [c3_sec])] \<and> name c3_sec = Some ''.data'' \<and>
   zero_run (data c3_elf) c3_sec 1 1 \<and>
   \<not> zero_run (data c3_elf) c3_sec 1 2 \<and> zero_run (data c3_elf) c3_sec 3 2 \<and>
   3 + 2 = sh_size c3_sec \<and> find_cave c3_elf 2 = Inr (Some (0x1003, 4))"
proof -
  have s: "sections c3_elf = Some [(1, [c3_sec])]" by (simp add: c3_elf_def)
  have two: "0 < (2::nat)" by simp
  have first: "\<forall>off'<3. \<not> zero_run (data c3_elf) c3_sec off' 2"
  proof (intro allI impI)
    fix off' :: nat assume "off' < 3"
    then have "off' = 0 \<or> off' = 1 \<or> off' = 2" by auto
    then show "\<not> zero_run (data c3_elf) c3_sec off' 2" using c3_shorter by auto
  qed
  have "\<forall>pre sec post off.
            iteration_order [(1, [c3_sec])] = pre @ sec # post \<and>
            (\<forall>s\<in>set pre. in_bounds (data c3_elf) s \<and> \<not> has_run (data c3_elf) s 2) \<and>
            zero_run (data c3_elf) sec off 2 \<and> (\<forall>off'<off. \<not> zero_run (data c3_elf) sec off' 2) \<and>
            name sec \<noteq> None \<longrightarrow>
            find_cave c3_elf 2 = Inr (Some (sh_addr sec + off, sh_offset sec + off))"
    by (rule find_cave_first_run[OF s two, THEN conjunct1])
  from this[rule_format, of "[]" c3_sec "[]" 3]
  have "find_cave c3_elf 2 = Inr (Some (sh_addr c3_sec + 3, sh_offset c3_sec + 3))"
    using c3_run first by (simp add: iteration_order_def c3_sec_def)
  moreover have "zero_run (data c3_elf) c3_sec 1 1"
    by (simp add: zero_run_def c3_elf_def c3_sec_def upt_conv_Cons)
  ultimately show ?thesis using s c3_run c3_shorter by (simp add: c3_sec_def)
qed

subsection \<open>Code Cave Finder: the order of the sections\<close>

lemma first_occurrences_snoc:
  "first_occurrences (xs @ [x]) =
     (if x \<in> set xs then first_occurrences xs else first_occurrences xs @ [x])"
  by (simp add: first_occurrences_def)

lemma distinct_first_occurrences: "distinct (first_occurrences xs)"
  by (simp add: first_occurrences_def)

lemma set_first_occurrences: "set (first_occurrences xs) = set xs"
  by (simp add: first_occurrences_def)

lemma dict_append_keyed:
  "distinct ks \<Longrightarrow>
   dict_append (map (\<lambda>ty. (ty, f ty)) ks) k sec =
     (if k \<in> set ks then map (\<lambda>ty. (ty, if ty = k then f ty @ [sec] else f ty)) ks
      else map (\<lambda>ty. (ty, f ty)) ks @ [(k, [sec])])"
  by (induction ks) auto

lemma build_dict_snoc:
  "build_dict (table @ [sec]) = dict_append (build_dict table) (sh_type sec) sec"
  by (simp add: build_dict_def)

lemma build_dict_groups:
  "build_dict table =
     map (\<lambda>ty. (ty, filter (\<lambda>sec. sh_type sec = ty) table)) (first_occurrences (map sh_type table))"
proof (induction table rule: rev_induct)
  case Nil
  then show ?case by (simp add: build_dict_def first_occurrences_def)
next
  case (snoc sec table)
  let ?ks = "first_occurrences (map sh_type table)"
  let ?f = "\<lambda>ty. filter (\<lambda>s. sh_type s = ty) table"
  have step: "build_dict (table @ [sec]) = dict_append (map (\<lambda>ty. (ty, ?f ty)) ?ks) (sh_type sec) sec"
    using snoc by (simp add: build_dict_snoc)
  show ?case
  proof (cases "sh_type sec \<in> set (map sh_type table)")
    case True
    then have "build_dict (table @ [sec]) =
        map (\<lambda>ty. (ty, if ty = sh_type sec then ?f ty @ [sec] else ?f ty)) ?ks"
      using step dict_append_keyed[OF distinct_first_occurrences, of ?f "map sh_type table" "sh_type sec" sec]
      by (simp add: set_first_occurrences)
    also have "\<dots> = map (\<lambda>ty. (ty, filter (\<lambda>s. sh_type s = ty) (table @ [sec]))) ?ks"
      by (rule map_cong) auto
    finally show ?thesis using True by (simp add: first_occurrences_snoc)
  next
    case False
    then have none: "?f (sh_type sec) = []"
      by (auto simp: filter_empty_conv image_iff)
    have "build_dict (table @ [sec]) = map (\<lambda>ty. (ty, ?f ty)) ?ks @ [(sh_type sec, [sec])]"
      using False step dict_append_keyed[OF distinct_first_occurrences, of ?f "map sh_type table" "sh_type sec" sec]
      by (simp add: set_first_occurrences)
    moreover have "map (\<lambda>ty. (ty, ?f ty)) ?ks =
        map (\<lambda>ty. (ty, filter (\<lambda>s. sh_type s = ty) (table @ [sec]))) ?ks"
      using False by (intro map_cong) (auto simp: set_first_occurrences)
    ultimately show ?thesis using False none by (simp add: first_occurrences_snoc)
  qed
qed

lemma iteration_order_build_dict: "iteration_order (build_dict table) = group_order table"
  by (simp add: build_dict_groups iteration_order_def group_order_def comp_def)

lemma parse_entries_fold:
  "parse_entries h tbl idxs (secs, sto) = Inr (secs', sto') \<Longrightarrow>
   \<exists>entries.
     map (\<lambda>i. unpack_section (py_slice tbl (i * e_shentsize h) (i * e_shentsize h + e_shentsize h))) idxs
       = map Inr entries \<and>
     secs' = foldl (\<lambda>dct sec. dict_append dct (sh_type sec) sec) secs entries"
proof (induction idxs arbitrary: secs sto)
  case Nil
  then show ?case by simp
next
  case (Cons i idxs)
  obtain sec where u: "unpack_section (py_slice tbl (i * e_shentsize h) (i * e_shentsize h + e_shentsize h)) = Inr sec"
    and r: "parse_entries h tbl idxs (dict_append secs (sh_type sec) sec,
              if i = e_shstrndx h then Some (sh_offset sec) else sto) = Inr (secs', sto')"
    using Cons.prems by (auto split: sum.splits)
  obtain entries where
    "map (\<lambda>i. unpack_section (py_slice tbl (i * e_shentsize h) (i * e_shentsize h + e_shentsize h))) idxs
       = map Inr entries"
    "secs' = foldl (\<lambda>dct sec. dict_append dct (sh_type sec) sec) (dict_append secs (sh_type sec) sec) entries"
    using Cons.IH[OF r] by blast
  then have "map (\<lambda>i. unpack_section (py_slice tbl (i * e_shentsize h) (i * e_shentsize h + e_shentsize h))) (i # idxs)
       = map Inr (sec # entries) \<and>
     secs' = foldl (\<lambda>dct sec. dict_append dct (sh_type sec) sec) secs (sec # entries)"
    using u by simp
  then show ?case by blast
qed

lemma unpack_section_unnamed: "unpack_section bs = Inr sec \<Longrightarrow> unnamed sec = sec"
  by (auto simp: unpack_section_def unnamed_def split: if_splits)

lemma name_secs_unnamed: "name_secs e secs = Inr secs' \<Longrightarrow> map unnamed secs' = map unnamed secs"
proof (induction secs arbitrary: secs')
  case Nil
  then show ?case by simp
next
  case (Cons a secs)
  then show ?case by (auto simp: unnamed_def split: sum.splits)
qed

lemma name_groups_unnamed:
  "name_groups e dct = Inr dct' \<Longrightarrow>
   map unnamed (iteration_order dct') = map unnamed (iteration_order dct)"
proof (induction dct arbitrary: dct')
  case Nil
  then show ?case by (simp add: iteration_order_def)
next
  case (Cons g dct)
  obtain ty secs where g: "g = (ty, secs)" by (cases g)
  obtain secs' rest' where "name_secs e secs = Inr secs'" "name_groups e dct = Inr rest'"
    "dct' = (ty, secs') # rest'"
    using Cons.prems g by (auto split: sum.splits)
  then show ?case
    using Cons.IH[of rest'] name_secs_unnamed[of e secs secs'] g
    by (simp add: iteration_order_def)
qed

lemma name_secs_named: "name_secs e secs = Inr secs' \<Longrightarrow> \<forall>s\<in>set secs'. name s \<noteq> None"
proof (induction secs arbitrary: secs')
  case Nil
  then show ?case by simp
next
  case (Cons a secs)
  then show ?case by (auto split: sum.splits)
qed

lemma name_groups_named:
  "name_groups e dct = Inr dct' \<Longrightarrow> \<forall>s\<in>set (iteration_order dct'). name s \<noteq> None"
proof (induction dct arbitrary: dct')
  case Nil
  then show ?case by (simp add: iteration_order_def)
next
  case (Cons g dct)
  obtain ty secs where g: "g = (ty, secs)" by (cases g)
  obtain secs' rest' where "name_secs e secs = Inr secs'" "name_groups e dct = Inr rest'"
    "dct' = (ty, secs') # rest'"
    using Cons.prems g by (auto split: sum.splits)
  then show ?case
    using Cons.IH[of rest'] name_secs_named[of e secs secs']
    by (auto simp: iteration_order_def)
qed

lemma parse_sections_header_named:
  assumes "parse_sections_header e1 = Inr e2" "sections e2 = Some dct"
  shows "\<forall>s\<in>set (iteration_order dct). name s \<noteq> None"
  using assms name_groups_named
  by (auto simp: parse_sections_header_def Let_def split: sum.splits option.splits prod.splits)

lemma parse_sections_header_order:
  assumes "header e1 = Some h" "parse_sections_header e1 = Inr e2"
  shows "\<exists>table dct. table_entries h (data e1) = map Inr table \<and> sections e2 = Some dct \<and>
           map unnamed (iteration_order dct) = group_order table"
proof -
  let ?tbl = "py_slice (data e1) (e_shoff h) (e_shoff h + e_shnum h * e_shentsize h)"
  obtain secs sto dct where
    p: "parse_entries h ?tbl [1..<e_shnum h] ([], string_table_offset e1) = Inr (secs, sto)"
    and n: "name_groups (e1\<lparr>sections := Some secs, string_table_offset := sto\<rparr>) secs = Inr dct"
    and e2: "e2 = e1\<lparr>sections := Some dct, string_table_offset := sto\<rparr>"
    using assms by (auto simp: parse_sections_header_def Let_def split: sum.splits prod.splits)
  obtain table where t: "table_entries h (data e1) = map Inr table" "secs = build_dict table"
    using parse_entries_fold[OF p] by (auto simp: table_entries_def build_dict_def)
  have "\<forall>sec\<in>set table. unnamed sec = sec"
  proof
    fix sec assume "sec \<in> set table"
    then have "Inr sec \<in> set (table_entries h (data e1))" using t(1) by simp
    then show "unnamed sec = sec"
      using unpack_section_unnamed by (auto simp: table_entries_def)
  qed
  then have "map unnamed (group_order table) = group_order table"
    by (auto simp: group_order_def map_concat intro!: arg_cong[where f=concat] map_idI)
  then have "map unnamed (iteration_order dct) = group_order table"
    using name_groups_unnamed[OF n] t(2) by (simp add: iteration_order_build_dict)
  then show ?thesis using t(1) e2 by auto
qed

lemma has_run_I: "zero_run d sec off n \<Longrightarrow> has_run d sec n"
  by (auto simp: has_run_iff)

lemma find_cave_Some_first:
  assumes "sections e = Some dct" "find_cave e R = Inr (Some loc)"
  shows "\<exists>pre sec post off. iteration_order dct = pre @ sec # post \<and>
           (\<forall>s\<in>set pre. \<not> has_run (data e) s R) \<and>
           zero_run (data e) sec off R \<and> loc = cave_at sec off"
proof -
  have "find_cave_secs (data e) R (iteration_order dct) = Inr (Some loc)"
    using assms by (simp add: find_cave_def find_cave_groups_flat)
  then obtain pre sec post where p: "iteration_order dct = pre @ sec # post"
    "\<forall>s\<in>set pre. scan_section (data e) s R = Inr None"
    "scan_section (data e) sec R = Inr (Some loc)"
    using find_cave_secs_Some by blast
  moreover obtain off where "zero_run (data e) sec off R" "loc = cave_at sec off"
    using scan_section_sound[OF p(3)] by blast
  ultimately show ?thesis using scan_section_None by blast
qed

lemmas eval_parse =
  parse_header_def unpack_header_def ELF32_EHDR_SZ_def EI_NIDENT_def ETYPE_DIC_def
  parse_sections_header_def unpack_section_def get_string_def py_chr_def char_of_def
  bit_Suc_0_iff py_slice_def upt_conv_Cons Let_def

lemma note_parse_header: "parse_header note_elf = Inr (note_elf\<lparr>header := Some note_header\<rparr>)"
  by (simp add: eval_parse note_elf_def note_image_def note_header_def)

lemma note_parse_sections:
  "parse_sections_header (note_elf\<lparr>header := Some note_header\<rparr>) = Inr note_parsed"
  by (simp add: eval_parse note_elf_def note_image_def note_header_def note_parsed_def
        note_text_def note_note_def note_data_def note_shstrtab_def)

lemma note_table:
  "table_entries note_header note_image =
     map Inr [unnamed note_text, unnamed note_note, unnamed note_data, unnamed note_shstrtab]"
  by (simp add: table_entries_def unnamed_def unpack_section_def py_slice_def upt_conv_Cons
        note_image_def note_header_def note_text_def note_note_def note_data_def
        note_shstrtab_def)

lemma note_scan_text: "scan_section note_image note_text 4 = Inr None"
  by (simp add: scan_section_def note_image_def note_text_def)

lemma note_run_note: "zero_run note_image note_note 1 4"
  by (simp add: zero_run_def note_image_def note_note_def upt_conv_Cons)

lemma note_run_data: "zero_run note_image note_data 1 4"
  by (simp add: zero_run_def note_image_def note_data_def upt_conv_Cons)

lemma note_find_cave: "find_cave note_parsed 4 = Inr (Some (cave_at note_data 1))"
  by (simp add: find_cave_def scan_section_def cave_at_def note_parsed_def note_image_def
        note_text_def note_data_def)

text \<open>
  C4, as stated, fails. In the second image \<open>.note\<close> (table index 2) and \<open>.data\<close>
  (table index 3) both hold four zero bytes and \<open>.text\<close> (index 1) holds none; the
  dict groups \<open>.data\<close> with \<open>.text\<close> under type 1, ahead of \<open>.note\<close>, and
  \<open>find_cave 4\<close> returns the location in \<open>.data\<close>, which lies outside \<open>.note\<close>.
\<close>

theorem find_cave_table_order_counterexample:
  "parse_header note_elf = Inr (note_elf\<lparr>header := Some note_header\<rparr>) \<and>
   parse_sections_header (note_elf\<lparr>header := Some note_header\<rparr>) = Inr note_parsed \<and>
   table_entries note_header note_image =
     map Inr [unnamed note_text, unnamed note_note, unnamed note_data, unnamed note_shstrtab] \<and>
   \<not> has_run note_image note_text 4 \<and> has_run note_image note_note 4 \<and>
   has_run note_image note_data 4 \<and>
   find_cave note_parsed 4 = Inr (Some (sh_addr note_data + 1, sh_offset note_data + 1)) \<and>
   sh_offset note_note + sh_size note_note \<le> sh_offset note_data + 1 \<and>
   sh_addr note_note + sh_size note_note \<le> sh_addr note_data + 1"
  using note_parse_header note_parse_sections note_table scan_section_None[OF note_scan_text]
    has_run_I[OF note_run_note] has_run_I[OF note_run_data] note_find_cave
  by (simp add: cave_at_def note_note_def note_data_def)

text \<open>
  C4, amended. \<open>find_cave\<close> visits the sections in the order of the dict that
  \<open>parse_sections_header\<close> built: grouped by \<open>sh_type\<close>, the groups in the order in
  which each type first appears in the section table, and table order inside a group.
  The location it returns lies in the first section, in that order, that has a
  qualifying run.
\<close>

theorem find_cave_group_order:
  assumes "header e1 = Some h" and "parse_sections_header e1 = Inr e2"
  shows "\<exists>table dct. table_entries h (data e1) = map Inr table \<and> sections e2 = Some dct \<and>
     map unnamed (iteration_order dct) = group_order table \<and>
     (\<forall>e R loc. sections e = Some dct \<and> find_cave e R = Inr (Some loc) \<longrightarrow>
        (\<exists>pre sec post off. iteration_order dct = pre @ sec # post \<and>
           (\<forall>s\<in>set pre. \<not> has_run (data e) s R) \<and>
           zero_run (data e) sec off R \<and> loc = cave_at sec off))"
proof -
  obtain table dct where t: "table_entries h (data e1) = map Inr table" "sections e2 = Some dct"
    "map unnamed (iteration_order dct) = group_order table"
    using parse_sections_header_order[OF assms] by blast
  have "\<forall>e R loc. sections e = Some dct \<and> find_cave e R = Inr (Some loc) \<longrightarrow>
        (\<exists>pre sec post off. iteration_order dct = pre @ sec # post \<and>
           (\<forall>s\<in>set pre. \<not> has_run (data e) s R) \<and>
           zero_run (data e) sec off R \<and> loc = cave_at sec off)"
    using find_cave_Some_first by blast
  then show ?thesis using t by blast
qed

lemma note_group_order:
  "group_order [unnamed note_text, unnamed note_note, unnamed note_data, unnamed note_shstrtab] =
     [unnamed note_text, unnamed note_data, unnamed note_note, unnamed note_shstrtab]"
  by (simp add: group_order_def first_occurrences_def unnamed_def note_text_def note_note_def
        note_data_def note_shstrtab_def)

text \<open>C4, amended: the second image as witness.\<close>

theorem find_cave_group_order_witness:
  "header (note_elf\<lparr>header := Some note_header\<rparr>) = Some note_header \<and>
   parse_sections_header (note_elf\<lparr>header := Some note_header\<rparr>) = Inr note_parsed \<and>
   table_entries note_header note_image =
     map Inr [unnamed note_text, unnamed note_note, unnamed note_data, unnamed note_shstrtab] \<and>
   map unnamed (iteration_order [(1, [note_text, note_data]), (7, [note_note]), (3, [note_shstrtab])]) =
     group_order [unnamed note_text, unnamed note_note, unnamed note_data, unnamed note_shstrtab] \<and>
   iteration_order [(1, [note_text, note_data]), (7, [note_note]), (3, [note_shstrtab])] =
     [note_text, note_data, note_note, note_shstrtab] \<and>
   \<not> has_run note_image note_text 4 \<and> zero_run note_image note_data 1 4 \<and>
   find_cave note_parsed 4 = Inr (Some (cave_at note_data 1))"
proof -
  have h: "header (note_elf\<lparr>header := Some note_header\<rparr>) = Some note_header" by simp
  obtain table dct where t:
    "table_entries note_header (data (note_elf\<lparr>header := Some note_header\<rparr>)) = map Inr table"
    "sections note_parsed = Some dct"
    "map unnamed (iteration_order dct) = group_order table"
    using find_cave_group_order[OF h note_parse_sections] by blast
  have d: "data (note_elf\<lparr>header := Some note_header\<rparr>) = note_image"
    by (simp add: note_elf_def)
  have "map Inr table =
      (map Inr [unnamed note_text, unnamed note_note, unnamed note_data, unnamed note_shstrtab]
        :: (error + Section) list)"
    using t(1) note_table d by simp
  then have table: "table = [unnamed note_text, unnamed note_note, unnamed note_data, unnamed note_shstrtab]"
    by (auto simp: map_eq_Cons_conv)
  have dct: "dct = [(1, [note_text, note_data]), (7, [note_note]), (3, [note_shstrtab])]"
    using t(2) by (simp add: note_parsed_def)
  show ?thesis
    using h note_parse_sections note_table t(3) table dct scan_section_None[OF note_scan_text]
      note_run_data note_find_cave
    by (simp add: iteration_order_def)
qed
text \<open>
  C1, evaluated on the first image. \<open>.bss\<close> has type 8 (\<open>SHT_NOBITS\<close>) and is the only
  section whose byte range holds four zero bytes; the test
  \<open>sec.sh_type == SectionType.SHT_NOBITS\<close> compares an integer with an enumeration
  member and is never true, so the section is scanned and \<open>find_cave 4\<close> returns its
  first byte.
\<close>

lemma bss_parse_header: "parse_header bss_elf = Inr (bss_elf\<lparr>header := Some bss_header\<rparr>)"
  by (simp add: eval_parse bss_elf_def bss_image_def bss_header_def)

lemma bss_parse_sections:
  "parse_sections_header (bss_elf\<lparr>header := Some bss_header\<rparr>) = Inr bss_parsed"
  by (simp add: eval_parse bss_elf_def bss_image_def bss_header_def bss_parsed_def
        bss_text_def bss_bss_def bss_shstrtab_def)

lemma bss_scan_text: "scan_section bss_image bss_text 4 = Inr None"
  by (simp add: scan_section_def bss_image_def bss_text_def)

lemma bss_scan_shstrtab: "scan_section bss_image bss_shstrtab 4 = Inr None"
  by (simp add: scan_section_def bss_image_def bss_shstrtab_def)

lemma bss_run: "zero_run bss_image bss_bss 0 4"
  by (simp add: zero_run_def bss_image_def bss_bss_def upt_conv_Cons)

lemma bss_find_cave: "find_cave bss_parsed 4 = Inr (Some (sh_addr bss_bss, sh_offset bss_bss))"
  by (simp add: find_cave_def scan_section_def bss_parsed_def bss_image_def bss_text_def
        bss_bss_def)

text \<open>C1: the failing input.\<close>

theorem find_cave_selects_nobits:
  "parse_header bss_elf = Inr (bss_elf\<lparr>header := Some bss_header\<rparr>) \<and>
   parse_sections_header (bss_elf\<lparr>header := Some bss_header\<rparr>) = Inr bss_parsed \<and>
   sh_type bss_bss = SectionType_value SHT_NOBITS \<and>
   \<not> has_run bss_image bss_text 4 \<and> \<not> has_run bss_image bss_shstrtab 4 \<and>
   zero_run bss_image bss_bss 0 4 \<and>
   find_cave bss_parsed 4 = Inr (Some (sh_addr bss_bss, sh_offset bss_bss))"
  using bss_parse_header bss_parse_sections scan_section_None[OF bss_scan_text]
    scan_section_None[OF bss_scan_shstrtab] bss_run bss_find_cave
  by (simp add: bss_bss_def)

theorem find_cave_selects_nobits_witness:
  "sh_type bss_bss = 8 \<and> find_cave bss_parsed 4 = Inr (Some (0x08049000, 80))"
  using find_cave_selects_nobits by (simp add: bss_bss_def)

subsection \<open>String Table Resolver\<close>

lemma get_string_loop_found:
  "sto + index \<le> p \<Longrightarrow> p < length d \<Longrightarrow> d ! p = 0 \<Longrightarrow>
   (\<forall>q. sto + index \<le> q \<and> q < p \<longrightarrow> d ! q \<noteq> 0) \<Longrightarrow>
   get_string_loop d sto index acc = Inr (acc @ map py_chr (py_slice d (sto + index) p))"
proof (induction "p - (sto + index)" arbitrary: index acc)
  case 0
  then have "p = sto + index" by simp
  then show ?case using 0 by (subst get_string_loop.simps) (simp add: py_slice_def)
next
  case (Suc n)
  then have lt: "sto + index < p" by simp
  then have nz: "d ! (sto + index) \<noteq> 0" using Suc.prems by simp
  have rest: "get_string_loop d sto (index + 1) (acc @ [py_chr (d ! (sto + index))]) =
      Inr ((acc @ [py_chr (d ! (sto + index))]) @ map py_chr (py_slice d (sto + (index + 1)) p))"
    using Suc lt by (intro Suc.hyps(1)) auto
  have "py_slice d (sto + index) p = d ! (sto + index) # py_slice d (sto + (index + 1)) p"
    using lt Suc.prems(2) Cons_nth_drop_Suc[of "sto + index" "take p d"]
    by (simp add: py_slice_def)
  then show ?case
    using rest nz lt Suc.prems(2) by (subst get_string_loop.simps) (simp add: Let_def)
qed

lemma get_string_loop_unterminated:
  "(\<forall>q. sto + index \<le> q \<and> q < length d \<longrightarrow> d ! q \<noteq> 0) \<Longrightarrow>
   get_string_loop d sto index acc = Inl IndexError"
proof (induction "length d - (sto + index)" arbitrary: index acc)
  case 0
  then show ?case by (subst get_string_loop.simps) simp
next
  case (Suc n)
  then have lt: "sto + index < length d" by simp
  then have nz: "d ! (sto + index) \<noteq> 0" using Suc.prems by simp
  have "get_string_loop d sto (index + 1) (acc @ [py_chr (d ! (sto + index))]) = Inl IndexError"
    using Suc by (intro Suc.hyps(1)) auto
  then show ?case using lt nz by (subst get_string_loop.simps) (simp add: Let_def)
qed

text \<open>
  C9. With the string table at offset \<open>sto\<close>: when \<open>p\<close> is the position of the first zero
  byte at or after \<open>sto + index\<close>, \<open>get_string index\<close> returns the characters of the
  bytes from \<open>sto + index\<close> up to, not including, \<open>p\<close>; when the buffer has no zero byte
  from \<open>sto + index\<close> on, it raises IndexError instead of returning the prefix it has
  read.
\<close>

theorem get_string_terminated:
  assumes "string_table_offset e = Some sto"
  shows "(\<forall>p. sto + index \<le> p \<and> p < length (data e) \<and> data e ! p = 0 \<and>
              (\<forall>q. sto + index \<le> q \<and> q < p \<longrightarrow> data e ! q \<noteq> 0) \<longrightarrow>
            get_string e index = Inr (map py_chr (py_slice (data e) (sto + index) p))) \<and>
         ((\<forall>q. sto + index \<le> q \<and> q < length (data e) \<longrightarrow> data e ! q \<noteq> 0) \<longrightarrow>
            get_string e index = Inl IndexError)"
  using assms get_string_loop_found[of sto index _ "data e" "[]"]
    get_string_loop_unterminated[of sto index "data e" "[]"]
  by (auto simp: get_string_def)

lemmas eval_chr = py_chr_def char_of_def bit_Suc_0_iff py_slice_def

text \<open>C9: the example of the specification, and a table without terminator.\<close>

theorem get_string_terminated_witness:
  "get_string strtab_elf 0 = Inr ''.text'' \<and> get_string strtab_elf 6 = Inr ''.data'' \<and>
   get_string unterminated_elf 0 = Inl IndexError"
proof -
  have s: "string_table_offset strtab_elf = Some 0" by (simp add: strtab_elf_def)
  have u: "string_table_offset unterminated_elf = Some 1" by (simp add: unterminated_elf_def)
  have nz5: "\<forall>q. 0 + 0 \<le> q \<and> q < 5 \<longrightarrow> data strtab_elf ! q \<noteq> 0"
  proof (intro allI impI)
    fix q :: nat assume "0 + 0 \<le> q \<and> q < 5"
    then have "q = 0 \<or> q = 1 \<or> q = 2 \<or> q = 3 \<or> q = 4" by auto
    then show "data strtab_elf ! q \<noteq> 0" by (auto simp: strtab_elf_def)
  qed
  have nz11: "\<forall>q. 0 + 6 \<le> q \<and> q < 11 \<longrightarrow> data strtab_elf ! q \<noteq> 0"
  proof (intro allI impI)
    fix q :: nat assume "0 + 6 \<le> q \<and> q < 11"
    then have "q = 6 \<or> q = 7 \<or> q = 8 \<or> q = 9 \<or> q = 10" by auto
    then show "data strtab_elf ! q \<noteq> 0" by (auto simp: strtab_elf_def)
  qed
  have nzu: "\<forall>q. 1 + 0 \<le> q \<and> q < length (data unterminated_elf) \<longrightarrow> data unterminated_elf ! q \<noteq> 0"
  proof (intro allI impI)
    fix q :: nat assume "1 + 0 \<le> q \<and> q < length (data unterminated_elf)"
    then have "q = 1 \<or> q = 2 \<or> q = 3 \<or> q = 4 \<or> q = 5" by (auto simp: unterminated_elf_def)
    then show "data unterminated_elf ! q \<noteq> 0" by (auto simp: unterminated_elf_def)
  qed
  have a: "get_string strtab_elf 0 = Inr (map py_chr (py_slice (data strtab_elf) (0 + 0) 5))"
    using get_string_terminated[OF s, of 0, THEN conjunct1, rule_format, of 5] nz5
    by (simp add: strtab_elf_def)
  have b: "get_string strtab_elf 6 = Inr (map py_chr (py_slice (data strtab_elf) (0 + 6) 11))"
    using get_string_terminated[OF s, of 6, THEN conjunct1, rule_format, of 11] nz11
    by (simp add: strtab_elf_def)
  have c: "get_string unterminated_elf 0 = Inl IndexError"
    using get_string_terminated[OF u, of 0, THEN conjunct2] nzu by blast
  show ?thesis using a b c by (simp add: strtab_elf_def eval_chr)
qed

subsection \<open>Slice assignment and little-endian fields\<close>

lemma nth_py_slice_lt: "i < length (py_slice xs a b) \<Longrightarrow> py_slice xs a b ! i = xs ! (a + i)"
proof -
  assume "i < length (py_slice xs a b)"
  then have i: "a + i < b" "a + i < length xs" by (auto simp: py_slice_def)
  then have "a \<le> length (take b xs)" by simp
  then have "drop a (take b xs) ! i = take b xs ! (a + i)" by (rule nth_drop)
  then show ?thesis using i by (simp add: py_slice_def)
qed

lemma py_slice_cong:
  assumes "length xs = length ys"
    and "\<And>i. a \<le> i \<Longrightarrow> i < b \<Longrightarrow> i < length xs \<Longrightarrow> xs ! i = ys ! i"
  shows "py_slice xs a b = py_slice ys a b"
proof (rule nth_equalityI)
  show "length (py_slice xs a b) = length (py_slice ys a b)"
    using assms(1) by (simp add: length_py_slice)
next
  fix i assume i: "i < length (py_slice xs a b)"
  then have "a + i < b" "a + i < length xs" by (auto simp: length_py_slice)
  then have "xs ! (a + i) = ys ! (a + i)" by (intro assms(2)) auto
  then show "py_slice xs a b ! i = py_slice ys a b ! i"
    using i assms(1) by (simp add: nth_py_slice_lt length_py_slice)
qed

lemma py_slice_prefix: "b \<le> n \<Longrightarrow> py_slice (py_slice xs 0 n) a b = py_slice xs a b"
  by (simp add: py_slice_def min_def)

lemma length_slice_assign:
  "a \<le> b \<Longrightarrow> b \<le> length xs \<Longrightarrow> length ys = b - a \<Longrightarrow> length (slice_assign xs a b ys) = length xs"
  by (simp add: slice_assign_def)

lemma nth_slice_assign_outside:
  assumes "a \<le> b" "b \<le> length xs" "length ys = b - a" "i < length xs" "\<not> (a \<le> i \<and> i < b)"
  shows "slice_assign xs a b ys ! i = xs ! i"
proof (cases "i < a")
  case True
  then show ?thesis using assms by (simp add: slice_assign_def nth_append)
next
  case False
  then have bi: "b \<le> i" using assms(5) by simp
  have la: "length (take a xs @ ys) = b" using assms by simp
  have "slice_assign xs a b ys ! i = ((take a xs @ ys) @ drop b xs) ! i"
    by (simp add: slice_assign_def)
  also have "\<dots> = drop b xs ! (i - b)"
    using bi la by (simp only: nth_append) simp
  also have "\<dots> = xs ! i"
    using bi assms(2) by simp
  finally show ?thesis .
qed

lemma py_slice_slice_assign_same:
  "a \<le> length xs \<Longrightarrow> py_slice (slice_assign xs a b ys) a (a + length ys) = ys"
  by (simp add: py_slice_def slice_assign_def)

lemma length_le_bytes: "length (le_bytes n v) = n"
  by (induction n arbitrary: v) auto

lemma le_nat_le_bytes: "le_nat (le_bytes n v) = v mod 256 ^ n"
proof (induction n arbitrary: v)
  case 0
  then show ?case by simp
next
  case (Suc n)
  have "unat (word_of_nat (v mod 256) :: byte) = v mod 256"
    by (simp add: unat_of_nat)
  then have "le_nat (le_bytes (Suc n) v) = v mod 256 + 256 * (v div 256 mod 256 ^ n)"
    using Suc by simp
  also have "\<dots> = v mod (256 * 256 ^ n)"
    by (simp add: mod_mult2_eq)
  finally show ?case by simp
qed

subsection \<open>Entry Point Patcher\<close>

lemma parse_header_data: "parse_header e = Inr e1 \<Longrightarrow> data e1 = data e"
  by (auto simp: parse_header_def split: sum.splits option.splits)

lemma parse_header_length: "parse_header e = Inr e1 \<Longrightarrow> 52 \<le> length (data e)"
  by (auto simp: parse_header_def unpack_header_def ELF32_EHDR_SZ_def EI_NIDENT_def
        length_py_slice split: sum.splits if_splits)

text \<open>
  C6. For an image whose header parses and a value \<open>V\<close> below \<open>2 ^ 32\<close>: \<open>change_ep V\<close>
  succeeds, \<open>parse_header\<close> succeeds again on the patched buffer, and the header it
  yields is the one parsed before with \<open>e_entry\<close> replaced by \<open>V\<close>: the other thirteen
  fields are as they were.
\<close>

theorem change_ep_header_roundtrip:
  assumes "parse_header e = Inr e1" and "V < 2 ^ 32"
  shows "\<exists>e2 e3 h. header e1 = Some h \<and> change_ep e1 V = Inr e2 \<and> parse_header e2 = Inr e3 \<and>
           header e3 = Some (h\<lparr>e_entry := V\<rparr>)"
proof -
  let ?d = "data e"
  let ?bs = "le_bytes 4 V"
  let ?d' = "slice_assign ?d 24 28 ?bs"
  have len: "52 \<le> length ?d" using assms(1) by (rule parse_header_length)
  have d1: "data e1 = ?d" using assms(1) by (rule parse_header_data)
  obtain h where h: "unpack_header (py_slice ?d 0 52) = Inr h" and ty: "ETYPE_DIC (e_type h) \<noteq> None"
    and e1: "e1 = e\<lparr>header := Some h\<rparr>"
    using assms(1)
    by (auto simp: parse_header_def ELF32_EHDR_SZ_def EI_NIDENT_def split: sum.splits option.splits)
  have len': "length ?d' = length ?d"
    using len by (intro length_slice_assign) (auto simp: length_le_bytes)
  have same: "\<And>a b. b \<le> 24 \<or> 28 \<le> a \<Longrightarrow> py_slice ?d' a b = py_slice ?d a b"
  proof -
    fix a b :: nat assume ab: "b \<le> 24 \<or> 28 \<le> a"
    show "py_slice ?d' a b = py_slice ?d a b"
    proof (rule py_slice_cong[OF len'])
      fix i assume "a \<le> i" "i < b" "i < length ?d'"
      then show "?d' ! i = ?d ! i"
        using ab len len' by (intro nth_slice_assign_outside) (auto simp: length_le_bytes)
    qed
  qed
  have entry: "py_slice ?d' 24 28 = ?bs"
    using py_slice_slice_assign_same[of 24 ?d 28 ?bs] len by (simp add: length_le_bytes)
  have hv: "h = \<lparr>e_ident = py_slice ?d 0 16,
                e_type = le_nat (py_slice ?d 16 18),
                e_machine = le_nat (py_slice ?d 18 20),
                e_version = le_nat (py_slice ?d 20 24),
                e_entry = le_nat (py_slice ?d 24 28),
                e_phoff = le_nat (py_slice ?d 28 32),
                e_shoff = le_nat (py_slice ?d 32 36),
                e_flags = le_nat (py_slice ?d 36 40),
                e_ehsize = le_nat (py_slice ?d 40 42),
                e_phentsize = le_nat (py_slice ?d 42 44),
                e_phnum = le_nat (py_slice ?d 44 46),
                e_shentsize = le_nat (py_slice ?d 46 48),
                e_shnum = le_nat (py_slice ?d 48 50),
                e_shstrndx = le_nat (py_slice ?d 50 52)\<rparr>"
    using h by (auto simp: unpack_header_def py_slice_prefix split: if_splits)
  have V: "le_nat ?bs = V" using assms(2) by (simp only: le_nat_le_bytes) simp
  have h': "unpack_header (py_slice ?d' 0 52) = Inr (h\<lparr>e_entry := V\<rparr>)"
    using len len' by (simp add: unpack_header_def length_py_slice py_slice_prefix same entry V hv)
  have c: "change_ep e1 V = Inr (e1\<lparr>data := ?d'\<rparr>)"
    using assms(2) d1 by (simp add: change_ep_def p32_def)
  have p: "parse_header (e1\<lparr>data := ?d'\<rparr>) = Inr (e1\<lparr>data := ?d', header := Some (h\<lparr>e_entry := V\<rparr>)\<rparr>)"
    using h' ty by (auto simp: parse_header_def ELF32_EHDR_SZ_def EI_NIDENT_def)
  show ?thesis using e1 c p by simp
qed


lemma parse_header_result: "parse_header e = Inr e' \<Longrightarrow> e' = e\<lparr>header := header e'\<rparr>"
  by (auto simp: parse_header_def split: sum.splits option.splits)

lemma le_bytes_4:
  "le_bytes 4 v = [word_of_nat (v mod 256), word_of_nat (v div 256 mod 256),
     word_of_nat (v div 256 div 256 mod 256), word_of_nat (v div 256 div 256 div 256 mod 256)]"
proof -
  have "(4::nat) = Suc (Suc (Suc (Suc 0)))" by simp
  then show ?thesis by (simp only: le_bytes.simps)
qed

text \<open>C6: the first image, patched to the address of its \<open>.bss\<close> section.\<close>

theorem change_ep_header_roundtrip_witness:
  "parse_header bss_elf = Inr (bss_elf\<lparr>header := Some bss_header\<rparr>) \<and>
   change_ep (bss_elf\<lparr>header := Some bss_header\<rparr>) 0x08049000 =
     Inr (bss_elf\<lparr>header := Some bss_header,
            data := slice_assign bss_image 24 28 [0x00, 0x90, 0x04, 0x08]\<rparr>) \<and>
   parse_header (bss_elf\<lparr>header := Some bss_header,
            data := slice_assign bss_image 24 28 [0x00, 0x90, 0x04, 0x08]\<rparr>) =
     Inr (bss_elf\<lparr>header := Some (bss_header\<lparr>e_entry := 0x08049000\<rparr>),
            data := slice_assign bss_image 24 28 [0x00, 0x90, 0x04, 0x08]\<rparr>)"
proof -
  let ?e2 = "bss_elf\<lparr>header := Some bss_header,
            data := slice_assign bss_image 24 28 [0x00, 0x90, 0x04, 0x08]\<rparr>"
  have v: "(0x08049000::nat) < 2 ^ 32" by simp
  have c: "change_ep (bss_elf\<lparr>header := Some bss_header\<rparr>) 0x08049000 = Inr ?e2"
    by (simp add: change_ep_def p32_def le_bytes_4 bss_elf_def)
  obtain e3 where e3: "parse_header ?e2 = Inr e3"
      "header e3 = Some (bss_header\<lparr>e_entry := 0x08049000\<rparr>)"
    using change_ep_header_roundtrip[OF bss_parse_header v] c by auto
  have "e3 = ?e2\<lparr>header := Some (bss_header\<lparr>e_entry := 0x08049000\<rparr>)\<rparr>"
    using parse_header_result[OF e3(1)] e3(2) by simp
  then show ?thesis using bss_parse_header c e3(1) by simp
qed

subsection \<open>Stub Injector\<close>

text \<open>What \<open>write_unpacker\<close> does when the module-level variable holds the offset that
  is passed, as in the script: it writes the stub there and nothing else.\<close>

lemma write_unpacker_exact:
  assumes "unpacker_off g = Some off" and "off + length asm \<le> length (data e)"
  shows "\<exists>e'. write_unpacker g e asm off = Inr e' \<and> length (data e') = length (data e) \<and>
           py_slice (data e') off (off + length asm) = asm \<and>
           (\<forall>i<length (data e). \<not> (off \<le> i \<and> i < off + length asm) \<longrightarrow> data e' ! i = data e ! i)"
proof -
  let ?d' = "slice_assign (data e) off (off + length asm) asm"
  have "write_unpacker g e asm off = Inr (e\<lparr>data := ?d'\<rparr>)"
    using assms(1) by (simp add: write_unpacker_def)
  moreover have "length ?d' = length (data e)"
    using assms(2) by (intro length_slice_assign) auto
  moreover have "py_slice ?d' off (off + length asm) = asm"
    using assms(2) by (intro py_slice_slice_assign_same) auto
  moreover have "\<forall>i<length (data e). \<not> (off \<le> i \<and> i < off + length asm) \<longrightarrow> ?d' ! i = data e ! i"
    using assms(2) by (auto intro!: nth_slice_assign_outside)
  ultimately show ?thesis by simp
qed

text \<open>
  C7, evaluated. \<open>write_unpacker\<close> is called with the stub \<open>[0x90, 0xc3]\<close> and the
  offset 4, inside a six-byte buffer. With the module-level variable \<open>unpacker_off\<close>
  unbound the call raises NameError; with it bound to 0 the stub lands on bytes 0 and 1
  and bytes 4 and 5 stay as they were. The parameter \<open>off\<close> has no effect.
\<close>

theorem write_unpacker_ignores_off:
  "write_unpacker \<lparr>unpacker_off = None\<rparr> c7_elf [0x90, 0xc3] 4 = Inl NameError \<and>
   write_unpacker \<lparr>unpacker_off = Some 0\<rparr> c7_elf [0x90, 0xc3] 4 =
     Inr (c7_elf\<lparr>data := [0x90, 0xc3, 0x33, 0x44, 0x55, 0x66]\<rparr>)"
  by (simp add: write_unpacker_def slice_assign_def c7_elf_def)

subsection \<open>Read-only methods\<close>

lemma parse_sections_header_data: "parse_sections_header e = Inr e' \<Longrightarrow> data e' = data e"
  by (auto simp: parse_sections_header_def Let_def split: sum.splits option.splits prod.splits)

text \<open>
  C10. A call of \<open>parse_header\<close>, \<open>parse_sections_header\<close>, \<open>get_string\<close>,
  \<open>get_section\<close>, \<open>find_cave\<close> (or \<open>create_unpacker\<close>) that returns leaves the buffer
  as it was; \<open>pack_code\<close>, \<open>change_ep\<close> and \<open>write_unpacker\<close> each have a call that
  changes it.
\<close>

theorem read_only_methods:
  "(\<forall>assemble g e c r e'. call_method assemble g e c = Inr (r, e') \<and> \<not> mutating c \<longrightarrow>
      data e' = data e) \<and>
   (\<exists>assemble g e key r e'. call_method assemble g e (PackCode key) = Inr (r, e') \<and> data e' \<noteq> data e) \<and>
   (\<exists>assemble g e new_ep r e'. call_method assemble g e (ChangeEp new_ep) = Inr (r, e') \<and> data e' \<noteq> data e) \<and>
   (\<exists>assemble g e asm off r e'.
      call_method assemble g e (WriteUnpacker asm off) = Inr (r, e') \<and> data e' \<noteq> data e)"
proof (intro conjI allI impI)
  fix assemble g e c r e'
  assume h: "call_method assemble g e c = Inr (r, e') \<and> \<not> mutating c"
  then show "data e' = data e"
  proof (cases c)
    case ParseHeader
    then show ?thesis
      using h parse_header_data[of e] by (auto simp: updating_def split: sum.splits)
  next
    case ParseSectionsHeader
    then show ?thesis
      using h parse_sections_header_data[of e] by (auto simp: updating_def split: sum.splits)
  qed (auto simp: returning_def split: sum.splits)
next
  have "call_method no_assembler \<lparr>unpacker_off = None\<rparr> c2_elf (PackCode 0xa5) =
      Inr (RNone, c2_elf\<lparr>data := [0x7f, 0x94, 0x00, 0x00]\<rparr>)"
    by (simp add: updating_def c2_text_def c2_elf_def get_section_def pack_code_def upt_conv_Cons)
  moreover have "data (c2_elf\<lparr>data := [0x7f, 0x94, 0x00, 0x00]\<rparr>) \<noteq> data c2_elf"
    by (simp add: c2_elf_def)
  ultimately show "\<exists>assemble g e key r e'.
      call_method assemble g e (PackCode key) = Inr (r, e') \<and> data e' \<noteq> data e"
    by blast
next
  have "call_method no_assembler \<lparr>unpacker_off = None\<rparr> c7_elf (ChangeEp 1) =
      Inr (RNone, c7_elf\<lparr>data := [0x11, 0x22, 0x33, 0x44, 0x55, 0x66, 0x01, 0x00, 0x00, 0x00]\<rparr>)"
    by (simp add: updating_def change_ep_def p32_def le_bytes_4 slice_assign_def c7_elf_def)
  moreover have "data (c7_elf\<lparr>data := [0x11, 0x22, 0x33, 0x44, 0x55, 0x66, 0x01, 0x00, 0x00, 0x00]\<rparr>)
      \<noteq> data c7_elf"
    by (simp add: c7_elf_def)
  ultimately show "\<exists>assemble g e new_ep r e'.
      call_method assemble g e (ChangeEp new_ep) = Inr (r, e') \<and> data e' \<noteq> data e"
    by blast
next
  have "call_method no_assembler \<lparr>unpacker_off = Some 0\<rparr> c7_elf (WriteUnpacker [0x90, 0xc3] 0) =
      Inr (RNone, c7_elf\<lparr>data := [0x90, 0xc3, 0x33, 0x44, 0x55, 0x66]\<rparr>)"
    by (simp add: updating_def write_unpacker_def slice_assign_def c7_elf_def)
  moreover have "data (c7_elf\<lparr>data := [0x90, 0xc3, 0x33, 0x44, 0x55, 0x66]\<rparr>) \<noteq> data c7_elf"
    by (simp add: c7_elf_def)
  ultimately show "\<exists>assemble g e asm off r e'.
      call_method assemble g e (WriteUnpacker asm off) = Inr (r, e') \<and> data e' \<noteq> data e"
    by blast
qed

text \<open>C10: parsing the first image and searching it.\<close>

theorem read_only_methods_witness:
  "call_method no_assembler \<lparr>unpacker_off = None\<rparr> bss_elf ParseHeader =
     Inr (RNone, bss_elf\<lparr>header := Some bss_header\<rparr>) \<and>
   mutating ParseHeader = False \<and>
   data (bss_elf\<lparr>header := Some bss_header\<rparr>) = data bss_elf \<and>
   call_method no_assembler \<lparr>unpacker_off = None\<rparr> (bss_elf\<lparr>header := Some bss_header\<rparr>)
       ParseSectionsHeader = Inr (RNone, bss_parsed) \<and>
   data bss_parsed = data bss_elf \<and>
   call_method no_assembler \<lparr>unpacker_off = None\<rparr> bss_parsed (FindCave 4) =
     Inr (RCave (Some (sh_addr bss_bss, sh_offset bss_bss)), bss_parsed)"
proof -
  have a: "call_method no_assembler \<lparr>unpacker_off = None\<rparr> bss_elf ParseHeader =
     Inr (RNone, bss_elf\<lparr>header := Some bss_header\<rparr>)"
    using bss_parse_header by (simp add: updating_def)
  have b: "call_method no_assembler \<lparr>unpacker_off = None\<rparr> (bss_elf\<lparr>header := Some bss_header\<rparr>)
       ParseSectionsHeader = Inr (RNone, bss_parsed)"
    using bss_parse_sections by (simp add: updating_def)
  have c: "call_method no_assembler \<lparr>unpacker_off = None\<rparr> bss_parsed (FindCave 4) =
     Inr (RCave (Some (sh_addr bss_bss, sh_offset bss_bss)), bss_parsed)"
    using bss_find_cave by (simp add: returning_def)
  have ro: "\<And>assemble g e c r e'. call_method assemble g e c = Inr (r, e') \<Longrightarrow> \<not> mutating c \<Longrightarrow>
      data e' = data e"
    using read_only_methods by blast
  have "data (bss_elf\<lparr>header := Some bss_header\<rparr>) = data bss_elf"
    using ro[OF a] by simp
  moreover have "data bss_parsed = data (bss_elf\<lparr>header := Some bss_header\<rparr>)"
    using ro[OF b] by simp
  ultimately show ?thesis using a b c by simp
qed

subsection \<open>The script: no cave, no output\<close>

lemma find_cave_no_run:
  assumes "sections e = Some dct" "\<forall>s\<in>set (iteration_order dct). \<not> has_run (data e) s R"
  shows "find_cave e R = Inr None \<or> find_cave e R = Inl IndexError"
  using assms find_cave_secs_no_run[of "iteration_order dct" "data e" R]
  by (simp add: find_cave_def find_cave_groups_flat)

lemma find_cave_no_run_in_bounds:
  assumes "sections e = Some dct"
    "\<forall>s\<in>set (iteration_order dct). \<not> has_run (data e) s R \<and> in_bounds (data e) s"
  shows "find_cave e R = Inr None"
  using assms find_cave_secs_no_run_in_bounds[of "iteration_order dct" "data e" R]
  by (simp add: find_cave_def find_cave_groups_flat)

lemma script_no_cave:
  assumes "script_head assemble fname elf_data = Inr (b3, stub)"
  shows "find_cave b3 (length stub) = Inr None \<Longrightarrow> script assemble fname elf_data = Inl TypeError"
    and "find_cave b3 (length stub) = Inl err \<Longrightarrow> script assemble fname elf_data = Inl err"
  using assms by (simp_all add: script_def)

text \<open>
  C8. When no section that \<open>find_cave\<close> visits has a run of \<open>R\<close> zero bytes,
  \<open>find_cave R\<close> returns no location: it returns \<open>None\<close>, or raises IndexError when a
  section reaches beyond the buffer (and \<open>None\<close> for certain when all sections lie in
  the buffer). When that is the state of the script at its call of \<open>find_cave\<close>, the
  script stops with that exception (TypeError from the tuple assignment for \<open>None\<close>)
  before it opens the output file.
\<close>

theorem no_cave_no_output:
  "(\<forall>e dct R. sections e = Some dct \<and> (\<forall>s\<in>set (iteration_order dct). \<not> has_run (data e) s R) \<longrightarrow>
      (find_cave e R = Inr None \<or> find_cave e R = Inl IndexError) \<and>
      ((\<forall>s\<in>set (iteration_order dct). in_bounds (data e) s) \<longrightarrow> find_cave e R = Inr None)) \<and>
   (\<forall>assemble fname elf_data b3 stub dct.
      script_head assemble fname elf_data = Inr (b3, stub) \<and> sections b3 = Some dct \<and>
      (\<forall>s\<in>set (iteration_order dct). \<not> has_run (data b3) s (length stub)) \<longrightarrow>
      (script assemble fname elf_data = Inl TypeError \<or>
       script assemble fname elf_data = Inl IndexError) \<and>
      ((\<forall>s\<in>set (iteration_order dct). in_bounds (data b3) s) \<longrightarrow>
       script assemble fname elf_data = Inl TypeError))"
proof (intro conjI allI impI)
  fix e :: Elf and dct R
  assume h: "sections e = Some dct \<and> (\<forall>s\<in>set (iteration_order dct). \<not> has_run (data e) s R)"
  then show "find_cave e R = Inr None \<or> find_cave e R = Inl IndexError"
    using find_cave_no_run by blast
  assume "\<forall>s\<in>set (iteration_order dct). in_bounds (data e) s"
  then show "find_cave e R = Inr None"
    using h find_cave_no_run_in_bounds by blast
next
  fix assemble fname elf_data and b3 :: Elf and stub dct
  assume h: "script_head assemble fname elf_data = Inr (b3, stub) \<and> sections b3 = Some dct \<and>
      (\<forall>s\<in>set (iteration_order dct). \<not> has_run (data b3) s (length stub))"
  then have "find_cave b3 (length stub) = Inr None \<or> find_cave b3 (length stub) = Inl IndexError"
    using find_cave_no_run by blast
  then show "script assemble fname elf_data = Inl TypeError \<or>
       script assemble fname elf_data = Inl IndexError"
    using h script_no_cave by blast
  assume "\<forall>s\<in>set (iteration_order dct). in_bounds (data b3) s"
  then have "find_cave b3 (length stub) = Inr None"
    using h find_cave_no_run_in_bounds by blast
  then show "script assemble fname elf_data = Inl TypeError"
    using h script_no_cave by blast
qed

lemma bss_pack_code: "pack_code bss_parsed 0xa5 = Inr (bss_parsed\<lparr>data := bss_packed\<rparr>)"
  by (simp add: pack_code_def get_section_def bss_parsed_def bss_text_def bss_bss_def
        bss_shstrtab_def bss_packed_def bss_image_def upt_conv_Cons)

lemma bss_magic: "py_slice bss_image 0 4 = [0x7f, 0x45, 0x4c, 0x46]"
  by (simp add: py_slice_def bss_image_def)

lemma bss_text_section: "get_section (bss_parsed\<lparr>data := d\<rparr>) ''.text'' = Inr (Some bss_text)"
  by (simp add: get_section_def bss_parsed_def bss_text_def)

lemma bss_script_head_long:
  "script_head long_assembler ''a.out'' bss_image =
     Inr (bss_parsed\<lparr>data := bss_packed\<rparr>, replicate 16 0x90)"
  using bss_parse_header bss_parse_sections bss_pack_code bss_magic bss_text_section
  by (simp add: script_head_def create_unpacker_def long_assembler_def bss_elf_def bss_parsed_def)


lemma bss_packed_scans:
  "scan_section bss_packed bss_text 16 = Inr None"
  "scan_section bss_packed bss_bss 16 = Inr None"
  "scan_section bss_packed bss_shstrtab 16 = Inr None"
  by (simp_all add: scan_section_def bss_packed_def bss_image_def bss_text_def bss_bss_def
        bss_shstrtab_def)

lemma bss_in_bounds:
  "in_bounds bss_packed bss_text" "in_bounds bss_packed bss_bss" "in_bounds bss_packed bss_shstrtab"
  by (simp_all add: in_bounds_def bss_packed_def bss_image_def bss_text_def bss_bss_def
        bss_shstrtab_def)

text \<open>C8: the first image with a stub of sixteen bytes.\<close>

theorem no_cave_no_output_witness:
  "script_head long_assembler ''a.out'' bss_image =
     Inr (bss_parsed\<lparr>data := bss_packed\<rparr>, replicate 16 0x90) \<and>
   \<not> has_run bss_packed bss_text 16 \<and> \<not> has_run bss_packed bss_bss 16 \<and>
   \<not> has_run bss_packed bss_shstrtab 16 \<and>
   find_cave (bss_parsed\<lparr>data := bss_packed\<rparr>) 16 = Inr None \<and>
   script long_assembler ''a.out'' bss_image = Inl TypeError"
proof -
  let ?dct = "[(1, [bss_text]), (8, [bss_bss]), (3, [bss_shstrtab])]"
  let ?b3 = "bss_parsed\<lparr>data := bss_packed\<rparr>"
  have s: "sections ?b3 = Some ?dct" by (simp add: bss_parsed_def)
  have nr: "\<not> has_run bss_packed bss_text 16" "\<not> has_run bss_packed bss_bss 16"
    "\<not> has_run bss_packed bss_shstrtab 16"
    using bss_packed_scans scan_section_None by blast+
  then have none: "\<forall>s\<in>set (iteration_order ?dct). \<not> has_run (data ?b3) s 16"
    by (simp add: iteration_order_def)
  have inb: "\<forall>s\<in>set (iteration_order ?dct). in_bounds (data ?b3) s"
    using bss_in_bounds by (simp add: iteration_order_def)
  have len: "length (replicate 16 (0x90 :: byte)) = 16" by simp
  have "find_cave ?b3 16 = Inr None"
    using no_cave_no_output[THEN conjunct1, rule_format, of ?b3 ?dct 16] s none inb by blast
  moreover have "script long_assembler ''a.out'' bss_image = Inl TypeError"
    using no_cave_no_output[THEN conjunct2, rule_format,
        of long_assembler "''a.out''" bss_image ?b3 "replicate 16 0x90" ?dct]
      bss_script_head_long s none inb len by simp
  ultimately show ?thesis using bss_script_head_long nr by simp
qed

subsection \<open>The script: what it changes\<close>

lemma pack_loop_frame:
  "pack_loop d off key idxs = Inr d' \<Longrightarrow>
   length d' = length d \<and> (\<forall>j. \<not> (off \<le> j \<and> j - off \<in> set idxs) \<longrightarrow> d' ! j = d ! j)"
proof (induction idxs arbitrary: d)
  case Nil
  then show ?case by simp
next
  case (Cons i rest)
  let ?v = "uint (d ! (off + i)) XOR key"
  let ?d1 = "d[off + i := word_of_int ?v]"
  have r: "pack_loop ?d1 off key rest = Inr d'"
    using Cons.prems by (auto simp: Let_def split: if_splits)
  have ih: "length d' = length ?d1 \<and> (\<forall>j. \<not> (off \<le> j \<and> j - off \<in> set rest) \<longrightarrow> d' ! j = ?d1 ! j)"
    by (rule Cons.IH[OF r])
  show ?case
  proof (intro conjI allI impI)
    show "length d' = length d" using ih by simp
  next
    fix j assume j: "\<not> (off \<le> j \<and> j - off \<in> set (i # rest))"
    then have "j \<noteq> off + i" by auto
    moreover have "\<not> (off \<le> j \<and> j - off \<in> set rest)" using j by auto
    ultimately show "d' ! j = d ! j" using ih by simp
  qed
qed

lemma pack_code_frame:
  assumes "pack_code e key = Inr e'"
  shows "\<exists>text_sec. get_section e ''.text'' = Inr (Some text_sec) \<and> sections e' = sections e \<and>
           length (data e') = length (data e) \<and>
           (\<forall>i. \<not> (sh_offset text_sec \<le> i \<and> i < sh_offset text_sec + sh_size text_sec) \<longrightarrow>
                data e' ! i = data e ! i)"
proof -
  obtain text_sec d' where t: "get_section e ''.text'' = Inr (Some text_sec)"
    and p: "pack_loop (data e) (sh_offset text_sec) key [0..<sh_size text_sec] = Inr d'"
    and e': "e' = e\<lparr>data := d'\<rparr>"
    using assms by (auto simp: pack_code_def split: sum.splits option.splits)
  have "length d' = length (data e) \<and>
     (\<forall>j. \<not> (sh_offset text_sec \<le> j \<and> j - sh_offset text_sec \<in> set [0..<sh_size text_sec]) \<longrightarrow>
          d' ! j = data e ! j)"
    by (rule pack_loop_frame[OF p])
  then have "length d' = length (data e) \<and>
     (\<forall>i. \<not> (sh_offset text_sec \<le> i \<and> i < sh_offset text_sec + sh_size text_sec) \<longrightarrow>
          d' ! i = data e ! i)"
    by auto
  then show ?thesis using t e' by auto
qed

lemma change_ep_frame:
  assumes "change_ep e v = Inr e'" "28 \<le> length (data e)"
  shows "sections e' = sections e \<and> length (data e') = length (data e) \<and>
         (\<forall>i<length (data e). \<not> (24 \<le> i \<and> i < 28) \<longrightarrow> data e' ! i = data e ! i)"
proof -
  have e': "e' = e\<lparr>data := slice_assign (data e) 24 28 (le_bytes 4 v)\<rparr>"
    using assms(1) by (auto simp: change_ep_def p32_def split: if_splits)
  have "length (slice_assign (data e) 24 28 (le_bytes 4 v)) = length (data e)"
    using assms(2) by (intro length_slice_assign) (auto simp: length_le_bytes)
  moreover have "\<forall>i<length (data e). \<not> (24 \<le> i \<and> i < 28) \<longrightarrow>
      slice_assign (data e) 24 28 (le_bytes 4 v) ! i = data e ! i"
    using assms(2) by (auto intro!: nth_slice_assign_outside simp: length_le_bytes)
  ultimately show ?thesis using e' by simp
qed

lemma find_cave_in_buffer:
  assumes "find_cave e R = Inr (Some (addr, off))" "0 < R"
  shows "off + R \<le> length (data e)"
proof -
  obtain dct where d: "sections e = Some dct"
    using assms(1) by (auto simp: find_cave_def split: option.splits)
  obtain sec k where z: "zero_run (data e) sec k R" and loc: "(addr, off) = cave_at sec k"
    using find_cave_Some_first[OF d assms(1)] by blast
  have "\<forall>j<R. sh_offset sec + k + j < length (data e)"
    using z by (simp add: zero_run_iff)
  moreover have "R - 1 < R" using assms(2) by simp
  ultimately have "sh_offset sec + k + (R - 1) < length (data e)" by blast
  then show ?thesis using loc assms(2) by (simp add: cave_at_def)
qed

lemma write_unpacker_empty:
  "unpacker_off g = Some off \<Longrightarrow> write_unpacker g e [] off = Inr (e\<lparr>data := data e\<rparr>)"
  by (simp add: write_unpacker_def slice_assign_def)

lemma script_head_data:
  assumes "script_head assemble fname elf_data = Inr (b3, stub)"
  shows "\<exists>text_sec. get_section b3 ''.text'' = Inr (Some text_sec) \<and>
           52 \<le> length elf_data \<and> length (data b3) = length elf_data \<and>
           (\<forall>i. \<not> (sh_offset text_sec \<le> i \<and> i < sh_offset text_sec + sh_size text_sec) \<longrightarrow>
                data b3 ! i = elf_data ! i)"
proof -
  let ?e0 = "\<lparr>elf_name = fname, data = elf_data, header = None, sections = None,
               string_table_offset = None\<rparr>"
  obtain b1 b2 where p1: "parse_header ?e0 = Inr b1" and p2: "parse_sections_header b1 = Inr b2"
    and p3: "pack_code b2 0xa5 = Inr b3"
    using assms by (auto simp: script_head_def split: if_splits sum.splits)
  have d2: "data b2 = elf_data"
    using parse_header_data[OF p1] parse_sections_header_data[OF p2] by simp
  have len: "52 \<le> length elf_data" using parse_header_length[OF p1] by simp
  obtain text_sec where t: "get_section b2 ''.text'' = Inr (Some text_sec)"
    "sections b3 = sections b2" "length (data b3) = length (data b2)"
    "\<forall>i. \<not> (sh_offset text_sec \<le> i \<and> i < sh_offset text_sec + sh_size text_sec) \<longrightarrow>
         data b3 ! i = data b2 ! i"
    using pack_code_frame[OF p3] by blast
  have "get_section b3 ''.text'' = Inr (Some text_sec)"
    using t(1,2) by (simp add: get_section_def)
  then show ?thesis using t d2 len by auto
qed

text \<open>
  C5. When the script reaches its end, the buffer it writes has the length of the
  input, and every byte outside the file range of the \<open>.text\<close> section, outside
  offsets 24 to 27 and outside the \<open>len(stub)\<close> bytes at the cave offset equals the
  byte of the input.
\<close>

theorem script_frame:
  assumes "script assemble fname elf_data = Inr st"
  shows "length (written st) = length elf_data \<and>
         (\<exists>text_sec. get_section (binary st) ''.text'' = Inr (Some text_sec) \<and>
            (\<forall>i<length elf_data.
               \<not> (sh_offset text_sec \<le> i \<and> i < sh_offset text_sec + sh_size text_sec) \<and>
               \<not> (24 \<le> i \<and> i < 28) \<and>
               \<not> (unpacker_offset st \<le> i \<and> i < unpacker_offset st + length (unpacker_asm st)) \<longrightarrow>
               written st ! i = elf_data ! i))"
proof -
  obtain b3 stub addr off b4 b5 where hd: "script_head assemble fname elf_data = Inr (b3, stub)"
    and fc: "find_cave b3 (length stub) = Inr (Some (addr, off))"
    and ce: "change_ep b3 addr = Inr b4"
    and wu: "write_unpacker \<lparr>unpacker_off = Some off\<rparr> b4 stub off = Inr b5"
    and st: "st = \<lparr>binary = b5, unpacker_asm = stub, unpacker_addr = addr,
                   unpacker_offset = off, written = data b5\<rparr>"
    using assms by (auto simp: script_def split: sum.splits option.splits prod.splits)
  obtain text_sec where t: "get_section b3 ''.text'' = Inr (Some text_sec)"
    "52 \<le> length elf_data" "length (data b3) = length elf_data"
    "\<forall>i. \<not> (sh_offset text_sec \<le> i \<and> i < sh_offset text_sec + sh_size text_sec) \<longrightarrow>
         data b3 ! i = elf_data ! i"
    using script_head_data[OF hd] by blast
  have c: "sections b4 = sections b3" "length (data b4) = length (data b3)"
    "\<forall>i<length (data b3). \<not> (24 \<le> i \<and> i < 28) \<longrightarrow> data b4 ! i = data b3 ! i"
    using change_ep_frame[OF ce] t(2,3) by auto
  have w: "sections b5 = sections b4 \<and> length (data b5) = length (data b4) \<and>
      (\<forall>i<length (data b4). \<not> (off \<le> i \<and> i < off + length stub) \<longrightarrow> data b5 ! i = data b4 ! i)"
  proof (cases "stub = []")
    case True
    then show ?thesis using wu by (auto simp: write_unpacker_empty)
  next
    case False
    then have "off + length stub \<le> length (data b4)"
      using find_cave_in_buffer[OF fc] c(2) by simp
    then obtain e' where "write_unpacker \<lparr>unpacker_off = Some off\<rparr> b4 stub off = Inr e'"
      "length (data e') = length (data b4)"
      "\<forall>i<length (data b4). \<not> (off \<le> i \<and> i < off + length stub) \<longrightarrow> data e' ! i = data b4 ! i"
      using write_unpacker_exact[of "\<lparr>unpacker_off = Some off\<rparr>" off stub b4] by auto
    moreover have "sections b5 = sections b4"
      using wu by (auto simp: write_unpacker_def)
    ultimately show ?thesis using wu by simp
  qed
  have "get_section b5 ''.text'' = Inr (Some text_sec)"
    using t(1) c(1) w by (simp add: get_section_def)
  moreover have "length (data b5) = length elf_data" using w c(2) t(3) by simp
  moreover have "\<forall>i<length elf_data.
               \<not> (sh_offset text_sec \<le> i \<and> i < sh_offset text_sec + sh_size text_sec) \<and>
               \<not> (24 \<le> i \<and> i < 28) \<and> \<not> (off \<le> i \<and> i < off + length stub) \<longrightarrow>
               data b5 ! i = elf_data ! i"
    using w c t by auto
  ultimately show ?thesis using st by auto
qed


lemma bss_script_head_short:
  "script_head short_assembler ''a.out'' bss_image =
     Inr (bss_parsed\<lparr>data := bss_packed\<rparr>, [0x60, 0x90, 0x61, 0xc3])"
  using bss_parse_header bss_parse_sections bss_pack_code bss_magic bss_text_section
  by (simp add: script_head_def create_unpacker_def short_assembler_def bss_elf_def bss_parsed_def)

lemma bss_packed_find_cave:
  "find_cave (bss_parsed\<lparr>data := bss_packed\<rparr>) 4 = Inr (Some (0x08049000, 80))"
  by (simp add: find_cave_def scan_section_def bss_parsed_def bss_packed_def bss_image_def
        bss_text_def bss_bss_def)

lemma bss_script_short:
  "script short_assembler ''a.out'' bss_image =
     Inr \<lparr>binary = bss_parsed\<lparr>data := bss_output\<rparr>, unpacker_asm = [0x60, 0x90, 0x61, 0xc3],
          unpacker_addr = 0x08049000, unpacker_offset = 80, written = bss_output\<rparr>"
proof -
  have four: "Suc (Suc (Suc (Suc 0))) = 4" by simp
  show ?thesis
    using bss_script_head_short bss_packed_find_cave
    by (simp add: four script_def change_ep_def p32_def le_bytes_4 write_unpacker_def
          bss_output_def)
qed

text \<open>C5: the first image with a stub of four bytes.\<close>

theorem script_frame_witness:
  "script short_assembler ''a.out'' bss_image =
     Inr \<lparr>binary = bss_parsed\<lparr>data := bss_output\<rparr>, unpacker_asm = [0x60, 0x90, 0x61, 0xc3],
          unpacker_addr = 0x08049000, unpacker_offset = 80, written = bss_output\<rparr> \<and>
   length bss_output = length bss_image \<and>
   get_section (bss_parsed\<lparr>data := bss_output\<rparr>) ''.text'' = Inr (Some bss_text) \<and>
   py_slice bss_output 52 56 = [0x94, 0x65, 0xe5, 0x66] \<and>
   py_slice bss_output 24 28 = [0x00, 0x90, 0x04, 0x08] \<and>
   py_slice bss_output 80 84 = [0x60, 0x90, 0x61, 0xc3] \<and>
   bss_output ! 0 = bss_image ! 0 \<and> bss_output ! 56 = bss_image ! 56 \<and>
   bss_output ! 247 = bss_image ! 247"
proof -
  have len: "length bss_output = length bss_image"
    using script_frame[OF bss_script_short] by simp
  have sample: "\<forall>i<length bss_image. \<not> (52 \<le> i \<and> i < 52 + 4) \<and> \<not> (24 \<le> i \<and> i < 28) \<and>
      \<not> (80 \<le> i \<and> i < 80 + 4) \<longrightarrow> bss_output ! i = bss_image ! i"
    using script_frame[OF bss_script_short] bss_text_section[of bss_output]
    by (simp add: bss_text_def)
  have l: "length bss_image = 248" by (simp add: bss_image_def)
  have "bss_output ! 0 = bss_image ! 0" "bss_output ! 56 = bss_image ! 56"
    "bss_output ! 247 = bss_image ! 247"
    using sample l by simp_all
  moreover have "py_slice bss_output 52 56 = [0x94, 0x65, 0xe5, 0x66]"
    "py_slice bss_output 24 28 = [0x00, 0x90, 0x04, 0x08]"
    "py_slice bss_output 80 84 = [0x60, 0x90, 0x61, 0xc3]"
    by (simp_all add: py_slice_def slice_assign_def bss_output_def bss_packed_def bss_image_def)
  ultimately show ?thesis using bss_script_short len bss_text_section by simp
qed

end
